theory Spec2Isabelle
  imports
    Complex_Main
    "HOL-Library.AList"
    "HOL-Library.Char_ord"
    "HOL-Library.List_Lexorder"
begin

section \<open>Values shared by the game engine\<close>

text \<open>
  Exceptions of the Python source are values.  A \<open>ValueError\<close> carries the
  reason the source formats into its message together with the offending item.
\<close>

datatype reason =
    TooLong string
  | Invalid string
  | InUse string
  | NoSuchProposal int
  | EmptySequence

datatype py_exception =
    ValueError reason
  | TypeError
  | KeyError string
  | RuntimeError
  | AttributeError
  | NotFound
  | Forbidden

text \<open>
  Players are identified by their numeric id.  A quantity value is
  \<open>Union[int, float]\<close>; the only operations the source applies to it are
  \<open>int(value)\<close> and \<open>==\<close>, both exact in Python, so a finite float is
  modelled by the rational it denotes (infinities and NaN are outside the model).
\<close>

type_synonym player = nat

datatype number = PyInt int | PyFloat rat

fun num_val :: "number \<Rightarrow> rat" where
  "num_val (PyInt i) = of_int i"
| "num_val (PyFloat r) = r"

text \<open>Python's \<open>==\<close> on numbers compares the denoted values across int and float.\<close>

definition py_eq :: "number \<Rightarrow> number \<Rightarrow> bool" where
  "py_eq a b = (num_val a = num_val b)"

text \<open>\<open>int(value)\<close>: the identity on an int, truncation towards zero on a float.\<close>

fun py_int :: "number \<Rightarrow> int" where
  "py_int (PyInt i) = i"
| "py_int (PyFloat r) = (if 0 \<le> r then \<lfloor>r\<rfloor> else \<lceil>r\<rceil>)"

subsection \<open>Dictionaries\<close>

text \<open>
  A Python \<open>dict\<close> is an association list in insertion order, read through
  \<^const>\<open>map_of\<close>, written with \<^const>\<open>AList.update\<close> (in place, or appended when
  the key is new) and \<^const>\<open>AList.delete\<close>.
\<close>

definition dict_items :: "('k \<times> 'v) list \<Rightarrow> ('k \<times> 'v) list" where
  "dict_items d = map (\<lambda>k. (k, the (map_of d k))) (remdups (map fst d))"

text \<open>
  Modelled from the spec: \<open>utils.sort_dict\<close> is not part of the sources at hand;
  the spec has the snapshot's keys "written in sorted order".
\<close>

definition sort_dict :: "('k::linorder \<times> 'v) list \<Rightarrow> ('k \<times> 'v) list" where
  "sort_dict d = sort_key fst (dict_items d)"

text \<open>
  Modelled from the spec: \<open>PlayerDict\<close> is not part of the sources at hand.  The
  spec describes a sparse mapping from player id to a value with deterministic
  ordered iteration, built from a persisted mapping and exported as a plain mapping.
  The operations \<open>in\<close>, \<open>del\<close>, item assignment and \<open>get\<close> used by the
  quantity code are the dictionary ones.
\<close>

type_synonym 'v PlayerDict = "(player \<times> 'v) list"

definition sorted_items :: "'v PlayerDict \<Rightarrow> (player \<times> 'v) list" where
  "sorted_items d = sort_key fst (dict_items d)"

definition PlayerDict_export :: "'v PlayerDict \<Rightarrow> (player \<times> 'v) list" where
  "PlayerDict_export d = sorted_items d"

section \<open>Quantities (nomic/quantity.py)\<close>

record Quantity =
  name :: string
  aliases :: "string list"
  players :: "number PlayerDict"
  default_value :: number

text \<open>
  \<open>Quantity.set\<close>:
  \<^verbatim>\<open>
    if int(value) == value: value = int(value)
    if value == self.default_value:
        if player in self.players: del self.players[player]
    else:
        self.players[player] = value
  \<close>
\<close>

definition coerce :: "number \<Rightarrow> number" where
  "coerce v = (if py_eq (PyInt (py_int v)) v then PyInt (py_int v) else v)"

definition Quantity_set :: "Quantity \<Rightarrow> player \<Rightarrow> number \<Rightarrow> Quantity" where
  "Quantity_set q p v =
     (let v' = coerce v in
      if py_eq v' (default_value q) then
        (if p \<in> fst ` set (players q)
         then q\<lparr>players := AList.delete p (players q)\<rparr> else q)
      else q\<lparr>players := AList.update p v' (players q)\<rparr>)"

text \<open>\<open>Quantity.get\<close>: \<open>self.players.get(player, self.default_value)\<close>.\<close>

definition Quantity_get :: "Quantity \<Rightarrow> player \<Rightarrow> number" where
  "Quantity_get q p = (case map_of (players q) p of Some v \<Rightarrow> v | None \<Rightarrow> default_value q)"

text \<open>
  \<open>Quantity.export\<close>: the dictionary \<open>name, aliases=sorted(self.aliases),
  players=self.players.export(), default_value\<close>.  The dictionary has the fields of
  the object and is modelled by the same record; \<open>Quantity(game, **d)\<close> builds the
  object from it, wrapping \<open>players\<close> in a \<open>PlayerDict\<close>.
\<close>

definition Quantity_export :: "Quantity \<Rightarrow> Quantity" where
  "Quantity_export q =
     \<lparr>name = name q, aliases = sort (aliases q),
      players = PlayerDict_export (players q), default_value = default_value q\<rparr>"

definition Quantity_init :: "Quantity \<Rightarrow> Quantity" where
  "Quantity_init d =
     \<lparr>name = name d, aliases = aliases d, players = players d,
      default_value = default_value d\<rparr>"

text \<open>The sparse-storage invariant: a player whose value reads as the default is not stored.\<close>

definition sparse :: "Quantity \<Rightarrow> bool" where
  "sparse q = (\<forall>p \<in> fst ` set (players q). \<not> py_eq (Quantity_get q p) (default_value q))"

subsection \<open>Names\<close>

text \<open>
  Strings are ASCII; \<open>str.lower\<close> maps \<open>A-Z\<close> to \<open>a-z\<close> and leaves the rest.
\<close>

definition lower_char :: "char \<Rightarrow> char" where
  "lower_char c =
     (case map_of (zip ''ABCDEFGHIJKLMNOPQRSTUVWXYZ'' ''abcdefghijklmnopqrstuvwxyz'') c of
        Some d \<Rightarrow> d | None \<Rightarrow> c)"

definition lower :: "string \<Rightarrow> string" where
  "lower s = map lower_char s"

definition name_head :: "char \<Rightarrow> bool" where
  "name_head c = (c \<in> set ''0123456789abcdefghijklmnopqrstuvwxyz'')"

definition name_tail :: "char \<Rightarrow> bool" where
  "name_tail c = (c \<in> set ''0123456789abcdefghijklmnopqrstuvwxyz-_'')"

text \<open>
  \<open>re.match(r'[0-9a-z][0-9a-z\-_]*', name)\<close>: the match is anchored at the start
  only; the result is the matched prefix, or \<open>None\<close>.
\<close>

definition re_match_name :: "string \<Rightarrow> string option" where
  "re_match_name s =
     (case s of
        [] \<Rightarrow> None
      | c # cs \<Rightarrow> if name_head c then Some (c # takeWhile name_tail cs) else None)"

text \<open>
  The name format as the spec words it, the whole string against
  \<open>^[0-9a-z][0-9a-z\-_]*$\<close>, for comparison with the source's test.
\<close>

definition spec_name_format :: "string \<Rightarrow> bool" where
  "spec_name_format s =
     (case s of [] \<Rightarrow> False | c # cs \<Rightarrow> name_head c \<and> list_all name_tail cs)"

subsection \<open>The registry (QuantityManager)\<close>

text \<open>
  Quantities are objects: the registry maps a name to a reference, and \<open>heap\<close>
  gives the object behind each reference.  \<open>locked\<close> says whether the caller holds
  the game's lock.  \<open>db_quantities\<close> is the persisted document
  \<open>get_db('quantities')\<close>.
\<close>

record QuantityManager =
  locked :: bool
  heap :: "nat \<Rightarrow> Quantity"
  next_ref :: nat
  quantities :: "(string \<times> nat) list"
  db_quantities :: "(string \<times> Quantity) list"

text \<open>
  \<open>QuantityManager.save\<close>:
  \<open>db.replace(utils.sort_dict({k: q.export() for k, q in self.quantities.items()}))\<close>.
\<close>

definition QuantityManager_save :: "QuantityManager \<Rightarrow> QuantityManager" where
  "QuantityManager_save s =
     s\<lparr>db_quantities :=
         sort_dict (map (\<lambda>(k, r). (k, Quantity_export (heap s r))) (dict_items (quantities s)))\<rparr>"

text \<open>
  \<open>get_quantity\<close>: the lower-cased name among the keys first, then the first
  quantity, in the dictionary's order, that has it among its aliases.
\<close>

definition get_quantity :: "QuantityManager \<Rightarrow> string \<Rightarrow> nat option" where
  "get_quantity s nm =
     (let n = lower nm in
      case map_of (quantities s) n of
        Some r \<Rightarrow> Some r
      | None \<Rightarrow>
          map_option snd (find (\<lambda>(k, r). n \<in> set (aliases (heap s r))) (quantities s)))"

text \<open>
  \<open>_check_quantity_name(name, ignore)\<close>.  An object of class \<open>Quantity\<close> is
  truthy, so \<open>ignore and name in ignore.aliases\<close> is the membership test whenever
  \<open>ignore\<close> is given, and \<open>if self.get_quantity(name)\<close> asks whether one was found.
\<close>

definition check_quantity_name ::
  "QuantityManager \<Rightarrow> string \<Rightarrow> nat option \<Rightarrow> py_exception + unit" where
  "check_quantity_name s nm ignore =
     (if length nm > 32 then Inl (ValueError (TooLong nm))
      else if re_match_name nm = None then Inl (ValueError (Invalid nm))
      else if \<not> (case ignore of None \<Rightarrow> False | Some r \<Rightarrow> nm \<in> set (aliases (heap s r)))
              \<and> get_quantity s nm \<noteq> None
        then Inl (ValueError (InUse nm))
      else Inr ())"

text \<open>The loop \<open>for name in ...: self._check_quantity_name(name, ignore=...)\<close>.\<close>

fun check_each :: "QuantityManager \<Rightarrow> string list \<Rightarrow> nat option \<Rightarrow> py_exception + unit" where
  "check_each s [] ignore = Inr ()"
| "check_each s (nm # rest) ignore =
     (case check_quantity_name s nm ignore of
        Inl e \<Rightarrow> Inl e
      | Inr _ \<Rightarrow> check_each s rest ignore)"

text \<open>
  Every operation returns its result, or the exception it raised, together with
  the registry as the call left it.

  Modelled from the spec: \<open>assert_locked\<close> of \<open>GameRepoManager\<close> is not part
  of the sources at hand; by the spec a lock-required operation invoked without the lock
  signals a programming error.
\<close>

definition add_quantity ::
  "QuantityManager \<Rightarrow> string \<Rightarrow> string list \<Rightarrow> (py_exception + nat) \<times> QuantityManager" where
  "add_quantity s quantity_name als =
     (if \<not> locked s then (Inl RuntimeError, s)
      else
        let qn = lower quantity_name; als' = map lower als in
        case check_each s (qn # als') None of
          Inl e \<Rightarrow> (Inl e, s)
        | Inr _ \<Rightarrow>
            let r = next_ref s;
                q = \<lparr>name = qn, aliases = als', players = [], default_value = PyInt 0\<rparr>;
                s1 = s\<lparr>heap := (heap s)(r := q), next_ref := Suc r,
                       quantities := AList.update qn r (quantities s)\<rparr>
            in (Inr r, QuantityManager_save s1))"


definition remove_quantity ::
  "QuantityManager \<Rightarrow> nat \<Rightarrow> (py_exception + unit) \<times> QuantityManager" where
  "remove_quantity s r =
     (if \<not> locked s then (Inl RuntimeError, s)
      else if name (heap s r) \<notin> fst ` set (quantities s)
        then (Inl (KeyError (name (heap s r))), s)
      else (Inr (),
            QuantityManager_save (s\<lparr>quantities := AList.delete (name (heap s r)) (quantities s)\<rparr>)))"

definition set_quantity_aliases ::
  "QuantityManager \<Rightarrow> nat \<Rightarrow> string list \<Rightarrow> (py_exception + unit) \<times> QuantityManager" where
  "set_quantity_aliases s r new_aliases =
     (if \<not> locked s then (Inl RuntimeError, s)
      else
        case check_each s new_aliases (Some r) of
          Inl e \<Rightarrow> (Inl e, s)
        | Inr _ \<Rightarrow>
            (Inr (),
             QuantityManager_save
               (s\<lparr>heap := (heap s)(r := (heap s r)\<lparr>aliases := sort new_aliases\<rparr>)\<rparr>)))"

text \<open>The loop of \<open>set_quantity_default\<close> over the snapshot \<open>sorted_items()\<close>.\<close>

fun set_each :: "(player \<times> number) list \<Rightarrow> Quantity \<Rightarrow> Quantity" where
  "set_each [] q = q"
| "set_each ((p, v) # rest) q = set_each rest (Quantity_set q p v)"

text \<open>
  \<open>set_quantity_default\<close>: the new default is assigned first, then \<open>set\<close> is
  applied again to every stored value, then the registry is saved.
\<close>

definition set_quantity_default ::
  "QuantityManager \<Rightarrow> nat \<Rightarrow> number \<Rightarrow> (py_exception + unit) \<times> QuantityManager" where
  "set_quantity_default s r new_default =
     (if \<not> locked s then (Inl RuntimeError, s)
      else
        let q1 = (heap s r)\<lparr>default_value := new_default\<rparr>;
            q2 = set_each (sorted_items (players q1)) q1
        in (Inr (), QuantityManager_save (s\<lparr>heap := (heap s)(r := q2)\<rparr>)))"

section \<open>The game (nomic/game.py)\<close>

subsection \<open>Proposals and rules\<close>

text \<open>
  Modelled from the spec: the class \<open>Proposal\<close> is not part of the sources at hand.
  The spec gives it the fields below; \<open>message_id\<close> is the attribute the game
  code assigns.  The dictionary \<open>Proposal.export()\<close> returns and
  \<open>Proposal(game, **p)\<close> accepts has these fields and is modelled by the same record.
\<close>

datatype ProposalStatus = Voting | Passed | Failed

record Proposal =
  n :: int
  author :: player
  timestamp :: int
  status :: ProposalStatus
  message_id :: "nat option"
  votes :: "(string \<times> (player \<times> int) list) list"

definition Proposal_export :: "Proposal \<Rightarrow> Proposal" where
  "Proposal_export p =
     \<lparr>n = n p, author = author p, timestamp = timestamp p, status = status p,
      message_id = message_id p, votes = votes p\<rparr>"

definition Proposal_init :: "Proposal \<Rightarrow> Proposal" where
  "Proposal_init d =
     \<lparr>n = n d, author = author d, timestamp = timestamp d, status = status d,
      message_id = message_id d, votes = votes d\<rparr>"

text \<open>
  Modelled from the spec: the class \<open>Rule\<close> is not part of the sources at hand.
  By the spec a node has a tag, a title, a content, a parent link and an ordered
  sequence of children; the parent link is a non-owning tag looked up in the owning
  game's node table, and the persisted entry has the same fields.
\<close>

record Rule =
  tag :: string
  title :: "string option"
  content :: "string option"
  parent :: "string option"
  children :: "string list"

definition Rule_export :: "Rule \<Rightarrow> Rule" where
  "Rule_export r =
     \<lparr>tag = tag r, title = title r, content = content r, parent = parent r,
      children = children r\<rparr>"

definition Rule_init :: "Rule \<Rightarrow> Rule" where
  "Rule_init d =
     \<lparr>tag = tag d, title = title d, content = content d, parent = parent d,
      children = children d\<rparr>"

text \<open>\<open>rule.parent\<close>: the rule that the parent tag names in the game's table, or \<open>None\<close>.\<close>

definition Rule_parent :: "(string \<times> Rule) list \<Rightarrow> Rule \<Rightarrow> Rule option" where
  "Rule_parent table r = (case parent r of None \<Rightarrow> None | Some pt \<Rightarrow> map_of table pt)"

subsection \<open>Loading the rule tree\<close>

text \<open>The warnings \<open>_load_rule\<close> writes to the log.\<close>

datatype warning =
    NoSuchRule string
  | Repetition string
  | NoParent string
  | NotChildOfParent string string

text \<open>
  \<open>_load_rule(rules_dict, tag)\<close> works on \<open>self.rules\<close> and the log; both
  are returned with the result, also when the call raises.  The first argument bounds the
  depth of the recursion; \<open>None\<close> means the bound was reached.
  \<^verbatim>\<open>
    if tag not in rules_dict: warn; return
    if tag in self.rules: warn; return
    rule = Rule(game=self, **rules_dict[tag])
    if rule.tag != 'root':
        if rule.parent is None: warn
        if rule not in rule.parent.children: warn; return
    self.rules[tag] = rule
    for child in rule.children: self._load_rule(rules_dict, child)
  \<close>
  After the warning for a missing parent there is no \<open>return\<close>: the next line reads
  \<open>rule.parent.children\<close> with \<open>rule.parent\<close> being \<open>None\<close>, which raises
  \<open>AttributeError\<close>.
\<close>

type_synonym rule_state = "(string \<times> Rule) list \<times> warning list"

fun load_rule ::
    "nat \<Rightarrow> (string \<times> Rule) list \<Rightarrow> string \<Rightarrow> rule_state
       \<Rightarrow> ((py_exception + unit) \<times> rule_state) option"
  and load_children ::
    "nat \<Rightarrow> (string \<times> Rule) list \<Rightarrow> string list \<Rightarrow> rule_state
       \<Rightarrow> ((py_exception + unit) \<times> rule_state) option"
where
  "load_rule 0 rules_dict t st = None"
| "load_rule (Suc depth) rules_dict t (table, warns) =
     (case map_of rules_dict t of
        None \<Rightarrow> Some (Inr (), table, warns @ [NoSuchRule t])
      | Some d \<Rightarrow>
          if t \<in> fst ` set table then Some (Inr (), table, warns @ [Repetition t])
          else
            let rule = Rule_init d in
            if tag rule \<noteq> ''root'' then
              (case Rule_parent table rule of
                 None \<Rightarrow> Some (Inl AttributeError, table, warns @ [NoParent t])
               | Some par \<Rightarrow>
                   if tag rule \<notin> set (children par)
                   then Some (Inr (), table, warns @ [NotChildOfParent t (tag par)])
                   else load_children depth rules_dict (children rule)
                          (AList.update t rule table, warns))
            else load_children depth rules_dict (children rule)
                   (AList.update t rule table, warns))"
| "load_children depth rules_dict [] st = Some (Inr (), st)"
| "load_children depth rules_dict (c # cs) st =
     (case load_rule depth rules_dict c st of
        None \<Rightarrow> None
      | Some (Inl e, st') \<Rightarrow> Some (Inl e, st')
      | Some (Inr _, st') \<Rightarrow> load_children depth rules_dict cs st')"

subsection \<open>The aggregate\<close>

text \<open>
  The persisted document, with the keys \<open>Game.export\<close> writes.  Channels are
  known by their ids.  The flags are a dictionary of keyword arguments.
\<close>

record Snapshot =
  snap_channels :: "nat option \<times> nat option"
  snap_flags :: "(string \<times> int) list"
  snap_player_activity :: "(player \<times> int) list"
  snap_quantities :: "(string \<times> Quantity) list"
  snap_proposals :: "Proposal list"
  snap_rules :: "(string \<times> Rule) list"

text \<open>
  \<open>owned_thread_id\<close> is the attribute \<open>_owned_thread_id\<close>: \<open>None\<close> while
  the attribute has never been assigned (the constructor does not assign it),
  \<open>Some None\<close> after a release, \<open>Some (Some t)\<close> while thread \<open>t\<close> owns the
  game.  \<open>lock\<close> is the state of the \<open>asyncio.Lock\<close>.  The field
  \<open>game_quantities\<close> is the attribute \<open>quantities\<close> of the game.
\<close>

record Game =
  lock :: bool
  owned_thread_id :: "nat option option"
  db :: Snapshot
  flags :: "(string \<times> int) list"
  proposals :: "Proposal list"
  game_quantities :: "(string \<times> Quantity) list"
  rules :: "(string \<times> Rule) list"
  player_activity :: "int PlayerDict"
  proposals_channel :: "nat option"
  rules_channel :: "nat option"

text \<open>
  \<open>Game.export\<close>: channels, flags, player activity, the quantities sorted by key,
  the proposals in list order, the rules sorted by key.
\<close>

definition Game_export :: "Game \<Rightarrow> Snapshot" where
  "Game_export g =
     \<lparr>snap_channels = (proposals_channel g, rules_channel g),
      snap_flags = flags g,
      snap_player_activity = PlayerDict_export (player_activity g),
      snap_quantities =
        sort_dict (map (\<lambda>(k, q). (k, Quantity_export q)) (dict_items (game_quantities g))),
      snap_proposals = map Proposal_export (proposals g),
      snap_rules = sort_dict (map (\<lambda>(k, r). (k, Rule_export r)) (dict_items (rules g)))\<rparr>"

text \<open>
  \<open>Game.__init__\<close> on the document \<open>d\<close> of the guild's store; \<open>guild\<close>
  lists the ids of the guild's channels (\<open>guild.get_channel\<close>), \<open>ok\<close> says
  whether the constructor was called by \<open>get_game\<close>, and \<open>depth\<close> bounds the
  recursion of the rule loader.  The result comes with the loader's log.
\<close>

definition get_channel :: "nat list \<Rightarrow> nat option \<Rightarrow> nat option" where
  "get_channel guild c =
     (case c of None \<Rightarrow> None | Some i \<Rightarrow> if i \<in> set guild then Some i else None)"

definition Game_init ::
  "nat \<Rightarrow> nat list \<Rightarrow> bool \<Rightarrow> Snapshot \<Rightarrow> ((py_exception + Game) \<times> warning list) option" where
  "Game_init depth guild ok d =
     (if \<not> ok then Some (Inl TypeError, [])
      else
        case load_rule depth (snap_rules d) ''root'' ([], []) of
          None \<Rightarrow> None
        | Some (Inl e, table, warns) \<Rightarrow> Some (Inl e, warns)
        | Some (Inr _, table, warns) \<Rightarrow>
            Some (Inr \<lparr>lock = False, owned_thread_id = None, db = d,
                       flags = snap_flags d,
                       proposals = map Proposal_init (snap_proposals d),
                       game_quantities =
                         map (\<lambda>(k, q). (k, Quantity_init q)) (dict_items (snap_quantities d)),
                       rules = table,
                       player_activity = snap_player_activity d,
                       proposals_channel = get_channel guild (fst (snap_channels d)),
                       rules_channel = get_channel guild (snd (snap_channels d))\<rparr>,
                  warns))"

subsection \<open>The lock\<close>

text \<open>
  \<open>__aenter__\<close> waits for the lock, so it completes only from a state in which the
  lock is free; it then stamps the caller's thread id.  \<open>__aexit__\<close> clears the stamp
  and releases the lock (\<open>asyncio.Lock.release\<close> raises \<open>RuntimeError\<close> on a lock
  that is not held).
\<close>

definition aenter :: "Game \<Rightarrow> nat \<Rightarrow> Game option" where
  "aenter g caller =
     (if lock g then None
      else Some (g\<lparr>lock := True, owned_thread_id := Some (Some caller)\<rparr>))"

definition aexit :: "Game \<Rightarrow> (py_exception + unit) \<times> Game" where
  "aexit g =
     (let g1 = g\<lparr>owned_thread_id := Some None\<rparr>
      in if lock g1 then (Inr (), g1\<lparr>lock := False\<rparr>) else (Inl RuntimeError, g1))"

text \<open>
  \<open>assert_locked\<close>: \<open>if not self._owned_thread_id == threading.get_ident(): raise
  RuntimeError\<close>; reading the attribute before its first assignment raises
  \<open>AttributeError\<close>.  The argument \<open>caller\<close> of the operations is what
  \<open>threading.get_ident()\<close> returns to the caller: the id of the thread it runs on.
  A caller is a task of the cooperative scheduler, running on a thread; tasks of one
  thread get the same id.
\<close>

record Caller =
  task :: nat
  thread :: nat

definition get_ident :: "Caller \<Rightarrow> nat" where
  "get_ident c = thread c"

definition assert_locked :: "Game \<Rightarrow> nat \<Rightarrow> py_exception + unit" where
  "assert_locked g caller =
     (case owned_thread_id g of
        None \<Rightarrow> Inl AttributeError
      | Some owner \<Rightarrow> if owner = Some caller then Inr () else Inl RuntimeError)"

text \<open>\<open>Game.save\<close>: \<open>assert_locked\<close>, then the store is cleared and given the export.\<close>

definition Game_save :: "Game \<Rightarrow> nat \<Rightarrow> (py_exception + unit) \<times> Game" where
  "Game_save g caller =
     (case assert_locked g caller of
        Inl e \<Rightarrow> (Inl e, g)
      | Inr _ \<Rightarrow> (Inr (), g\<lparr>db := Game_export g\<rparr>))"

subsection \<open>Proposals by number\<close>

definition has_proposal :: "Game \<Rightarrow> int \<Rightarrow> bool" where
  "has_proposal g i = (1 \<le> i \<and> i \<le> int (length (proposals g)))"

definition get_proposal :: "Game \<Rightarrow> int \<Rightarrow> Proposal option" where
  "get_proposal g i = (if has_proposal g i then Some (proposals g ! nat (i - 1)) else None)"

text \<open>\<open>_check_proposal(*ns)\<close>; the ids are integers by their type.\<close>

fun check_proposal :: "Game \<Rightarrow> int list \<Rightarrow> py_exception + unit" where
  "check_proposal g [] = Inr ()"
| "check_proposal g (i # rest) =
     (if \<not> (1 \<le> i \<and> i \<le> int (length (proposals g))) then Inl (ValueError (NoSuchProposal i))
      else check_proposal g rest)"

text \<open>The numbering invariant: the proposal at position \<open>i\<close> (from 1) has number \<open>i\<close>.\<close>

definition numbered :: "Proposal list \<Rightarrow> bool" where
  "numbered ps = (map n ps = map int [1..<Suc (length ps)])"

text \<open>
  Modelled from the spec: \<open>remove_proposal\<close> is called by the command layer but is
  not part of the sources at hand.  By the spec, removing proposal \<open>k\<close> takes it out
  of the sequence, shifts every proposal with a number above \<open>k\<close> down by one, and
  persists in the same step; ids are validated before any mutation and the operation
  requires the lock.
\<close>

definition proposals_without :: "int \<Rightarrow> Proposal list \<Rightarrow> Proposal list" where
  "proposals_without k ps =
     map (\<lambda>p. if k < n p then p\<lparr>n := n p - 1\<rparr> else p)
       (take (nat (k - 1)) ps @ drop (nat k) ps)"

definition remove_proposal :: "Game \<Rightarrow> nat \<Rightarrow> int \<Rightarrow> (py_exception + unit) \<times> Game" where
  "remove_proposal g caller k =
     (case assert_locked g caller of
        Inl e \<Rightarrow> (Inl e, g)
      | Inr _ \<Rightarrow>
          (case check_proposal g [k] of
             Inl e \<Rightarrow> (Inl e, g)
           | Inr _ \<Rightarrow> Game_save (g\<lparr>proposals := proposals_without k (proposals g)\<rparr>) caller))"

subsection \<open>Refreshing and reposting the proposal messages\<close>

text \<open>
  Modelled from the spec: the messaging collaborator and \<open>Proposal.fetch_message\<close>
  are not part of the sources at hand.  They are a parameter of the model: a record of
  the calls the game code makes, each taking the state \<open>'w\<close> of the outside world
  and returning its result, or the exception it raises, with the new state.  A message
  is known by its id; \<open>send\<close> is given the number of the proposal it announces.
\<close>

datatype vote_emoji = VOTE_FOR | VOTE_AGAINST | VOTE_ABSTAIN

record 'w Messenger =
  fetch_message :: "'w \<Rightarrow> Proposal \<Rightarrow> (py_exception + nat option) \<times> 'w"
  clear_reactions :: "'w \<Rightarrow> nat \<Rightarrow> (py_exception + unit) \<times> 'w"
  edit :: "'w \<Rightarrow> nat \<Rightarrow> Proposal \<Rightarrow> (py_exception + unit) \<times> 'w"
  add_reaction :: "'w \<Rightarrow> nat \<Rightarrow> vote_emoji \<Rightarrow> (py_exception + unit) \<times> 'w"
  delete_messages :: "'w \<Rightarrow> nat list \<Rightarrow> (py_exception + unit) \<times> 'w"
  send :: "'w \<Rightarrow> int \<Rightarrow> (py_exception + nat) \<times> 'w"

text \<open>One awaited call after another: the first exception ends the sequence.\<close>

definition and_then ::
  "(py_exception + 'a) \<times> 'w \<Rightarrow> ('a \<Rightarrow> 'w \<Rightarrow> (py_exception + 'b) \<times> 'w)
     \<Rightarrow> (py_exception + 'b) \<times> 'w" where
  "and_then r f = (case r of (Inl e, w) \<Rightarrow> (Inl e, w) | (Inr x, w) \<Rightarrow> f x w)"

text \<open>
  The body of the \<open>try\<close> in \<open>refresh_proposal\<close>:
  \<^verbatim>\<open>
    m = await proposal.fetch_message()
    await m.clear_reactions()
    await m.edit(embed=proposal.embed)
    await m.add_reaction(emoji.VOTE_FOR)
    await m.add_reaction(emoji.VOTE_AGAINST)
    await m.add_reaction(emoji.VOTE_ABSTAIN)
  \<close>
  When \<open>fetch_message\<close> returns \<open>None\<close>, \<open>m.clear_reactions\<close> raises
  \<open>AttributeError\<close>.
\<close>

definition refresh_message ::
  "'w Messenger \<Rightarrow> Proposal \<Rightarrow> 'w \<Rightarrow> (py_exception + unit) \<times> 'w" where
  "refresh_message io p w =
     and_then (fetch_message io w p) (\<lambda>found w1.
       case found of
         None \<Rightarrow> (Inl AttributeError, w1)
       | Some m \<Rightarrow>
           and_then (clear_reactions io w1 m) (\<lambda>_ w2.
           and_then (edit io w2 m p) (\<lambda>_ w3.
           and_then (add_reaction io w3 m VOTE_FOR) (\<lambda>_ w4.
           and_then (add_reaction io w4 m VOTE_AGAINST) (\<lambda>_ w5.
           add_reaction io w5 m VOTE_ABSTAIN)))))"

text \<open>
  The first loop of \<open>repost_proposal\<close>: every proposal's message is fetched, and
  the ones found are collected.
\<close>

fun fetch_all :: "'w Messenger \<Rightarrow> Proposal list \<Rightarrow> 'w \<Rightarrow> (py_exception + nat list) \<times> 'w" where
  "fetch_all io [] w = (Inr [], w)"
| "fetch_all io (p # ps) w =
     and_then (fetch_message io w p) (\<lambda>found w1.
     and_then (fetch_all io ps w1) (\<lambda>ms w2.
       (Inr ((case found of None \<Rightarrow> [] | Some m \<Rightarrow> [m]) @ ms), w2)))"

text \<open>
  The second loop: a placeholder is sent for every number of the range, and the
  proposal's \<open>message_id\<close> is set to the new message.  An exception leaves the
  proposals handled so far with their new ids.
\<close>

definition set_message_id :: "Game \<Rightarrow> int \<Rightarrow> nat \<Rightarrow> Game" where
  "set_message_id g i m =
     g\<lparr>proposals := (proposals g)[nat (i - 1) := (proposals g ! nat (i - 1))\<lparr>message_id := Some m\<rparr>]\<rparr>"

fun send_placeholders ::
  "'w Messenger \<Rightarrow> int list \<Rightarrow> Game \<Rightarrow> 'w \<Rightarrow> (py_exception + unit) \<times> Game \<times> 'w" where
  "send_placeholders io [] g w = (Inr (), g, w)"
| "send_placeholders io (i # rest) g w =
     (case send io w i of
        (Inl e, w1) \<Rightarrow> (Inl e, g, w1)
      | (Inr m, w1) \<Rightarrow> send_placeholders io rest (set_message_id g i m) w1)"

text \<open>
  \<open>refresh_proposal(*ns)\<close> and \<open>repost_proposal(*ns)\<close> call each other; the
  second argument bounds the number of nested reposts, \<open>None\<close> meaning that the
  bound was reached.  \<open>refresh_loop\<close> is the loop over \<open>sorted(set(ns))\<close>: a
  \<open>NotFound\<close> from the body ends it with \<open>repost_proposal(n)\<close>, any other
  exception propagates.  \<open>repost_proposal\<close> takes the range from \<open>min(ns)\<close>
  (which raises \<open>ValueError\<close> on no ids) to the number of proposals, fetches and
  deletes the messages found, sends the placeholders, saves, and refreshes the range.
\<close>

fun refresh_proposal ::
    "'w Messenger \<Rightarrow> nat \<Rightarrow> nat \<Rightarrow> int list \<Rightarrow> Game \<Rightarrow> 'w
       \<Rightarrow> ((py_exception + unit) \<times> Game \<times> 'w) option"
  and refresh_loop ::
    "'w Messenger \<Rightarrow> nat \<Rightarrow> nat \<Rightarrow> int list \<Rightarrow> Game \<Rightarrow> 'w
       \<Rightarrow> ((py_exception + unit) \<times> Game \<times> 'w) option"
  and repost_proposal ::
    "'w Messenger \<Rightarrow> nat \<Rightarrow> nat \<Rightarrow> int list \<Rightarrow> Game \<Rightarrow> 'w
       \<Rightarrow> ((py_exception + unit) \<times> Game \<times> 'w) option"
where
  "refresh_proposal io depth caller ns g w =
     (case assert_locked g caller of
        Inl e \<Rightarrow> Some (Inl e, g, w)
      | Inr _ \<Rightarrow>
          (case check_proposal g ns of
             Inl e \<Rightarrow> Some (Inl e, g, w)
           | Inr _ \<Rightarrow> refresh_loop io depth caller (sort (remdups ns)) g w))"
| "refresh_loop io depth caller [] g w = Some (Inr (), g, w)"
| "refresh_loop io depth caller (i # rest) g w =
     (case refresh_message io (proposals g ! nat (i - 1)) w of
        (Inr _, w1) \<Rightarrow> refresh_loop io depth caller rest g w1
      | (Inl e, w1) \<Rightarrow>
          if e = NotFound then repost_proposal io depth caller [i] g w1
          else Some (Inl e, g, w1))"
| "repost_proposal io 0 caller ns g w = None"
| "repost_proposal io (Suc depth) caller ns g w =
     (case assert_locked g caller of
        Inl e \<Rightarrow> Some (Inl e, g, w)
      | Inr _ \<Rightarrow>
          (case check_proposal g ns of
             Inl e \<Rightarrow> Some (Inl e, g, w)
           | Inr _ \<Rightarrow>
               if ns = [] then Some (Inl (ValueError EmptySequence), g, w)
               else
                 let proposal_range = [Min (set ns)..int (length (proposals g))];
                     ps = map (\<lambda>i. proposals g ! nat (i - 1)) proposal_range
                 in
                   case fetch_all io ps w of
                     (Inl e, w1) \<Rightarrow> Some (Inl e, g, w1)
                   | (Inr proposal_messages, w1) \<Rightarrow>
                       (case (if proposal_messages \<noteq> []
                              then delete_messages io w1 proposal_messages
                              else (Inr (), w1)) of
                          (Inl e, w2) \<Rightarrow> Some (Inl e, g, w2)
                        | (Inr _, w2) \<Rightarrow>
                            (case send_placeholders io proposal_range g w2 of
                               (Inl e, g1, w3) \<Rightarrow> Some (Inl e, g1, w3)
                             | (Inr _, g1, w3) \<Rightarrow>
                                 (case Game_save g1 caller of
                                    (Inl e, g2) \<Rightarrow> Some (Inl e, g2, w3)
                                  | (Inr _, g2) \<Rightarrow>
                                      refresh_proposal io depth caller proposal_range g2 w3)))))"

subsection \<open>Notions used to state the refresh's properties\<close>

text \<open>
  \<open>refreshed_all\<close>: the world after the body of the loop has succeeded for every
  id of a list, if it does.  \<open>placeholder_ids\<close>: the ids of the messages that the
  placeholders sent for a range get.
\<close>

fun refreshed_all :: "'w Messenger \<Rightarrow> Game \<Rightarrow> int list \<Rightarrow> 'w \<Rightarrow> 'w option" where
  "refreshed_all io g [] w = Some w"
| "refreshed_all io g (i # rest) w =
     (case refresh_message io (proposals g ! nat (i - 1)) w of
        (Inr _, w1) \<Rightarrow> refreshed_all io g rest w1
      | (Inl e, w1) \<Rightarrow> None)"

fun placeholder_ids :: "'w Messenger \<Rightarrow> int list \<Rightarrow> 'w \<Rightarrow> nat list" where
  "placeholder_ids io [] w = []"
| "placeholder_ids io (i # rest) w =
     (case send io w i of
        (Inl e, w1) \<Rightarrow> []
      | (Inr m, w1) \<Rightarrow> m # placeholder_ids io rest w1)"

text \<open>
  Modelled from the spec: the collaborator with \<open>fetch(message-id) -> content |
  NotFound\<close>.  The channel holds the ids of its messages and the id the next message
  gets.  Fetching the message of a proposal signals \<open>NotFound\<close> when the channel
  does not have it (a proposal without a message id has nothing to fetch); so do the
  calls on a message that is gone; deleting removes the messages that are there; sending
  adds a message.
\<close>

record Channel =
  existing :: "nat list"
  next_id :: nat

definition on_message :: "Channel \<Rightarrow> nat \<Rightarrow> (py_exception + unit) \<times> Channel" where
  "on_message w m = (if m \<in> set (existing w) then (Inr (), w) else (Inl NotFound, w))"

definition channel_io :: "Channel Messenger" where
  "channel_io =
     \<lparr>fetch_message =
        (\<lambda>w p. case message_id p of
                  None \<Rightarrow> (Inr None, w)
                | Some m \<Rightarrow> if m \<in> set (existing w) then (Inr (Some m), w)
                            else (Inl NotFound, w)),
      clear_reactions = on_message,
      edit = (\<lambda>w m p. on_message w m),
      add_reaction = (\<lambda>w m e. on_message w m),
      delete_messages = (\<lambda>w ms. (Inr (), w\<lparr>existing := filter (\<lambda>m. m \<notin> set ms) (existing w)\<rparr>)),
      send = (\<lambda>w i. (Inr (next_id w),
                       w\<lparr>existing := existing w @ [next_id w], next_id := Suc (next_id w)\<rparr>))\<rparr>"

subsection \<open>Notions used to state the registry's properties\<close>

text \<open>
  A name collides when, compared case-insensitively, it is the name or an alias of
  a registered quantity.  The registry is in lower case when every stored name and
  alias is its own lower-casing, as the data model's name format has it.
\<close>

definition collides :: "QuantityManager \<Rightarrow> string \<Rightarrow> bool" where
  "collides s nm =
     (\<exists>(k, r) \<in> set (quantities s).
        lower nm = lower k \<or> lower nm \<in> lower ` set (aliases (heap s r)))"

definition lower_case_registry :: "QuantityManager \<Rightarrow> bool" where
  "lower_case_registry s =
     (\<forall>(k, r) \<in> set (quantities s).
        lower k = k \<and> (\<forall>a \<in> set (aliases (heap s r)). lower a = a))"

text \<open>A registry with one quantity, used to run the operations on concrete input.\<close>

definition example_registry :: QuantityManager where
  "example_registry =
     \<lparr>locked = True,
      heap = (\<lambda>_. \<lparr>name = ''points'', aliases = [''pts''], players = [(3, PyInt 5), (4, PyInt 2)],
                      default_value = PyInt 0\<rparr>),
      next_ref = 1,
      quantities = [(''points'', 0)],
      db_quantities = []\<rparr>"


text \<open>The registry before any quantity is added, with the lock held.\<close>

definition empty_registry :: QuantityManager where
  "empty_registry =
     \<lparr>locked = True,
      heap = (\<lambda>_. \<lparr>name = [], aliases = [], players = [], default_value = PyInt 0\<rparr>),
      next_ref = 0,
      quantities = [],
      db_quantities = []\<rparr>"

text \<open>
  A game with three proposals and its persisted document; the same game with the lock
  held by thread 7; a rule document whose node \<open>a\<close> names no parent.
\<close>

definition example_snapshot :: Snapshot where
  "example_snapshot =
     \<lparr>snap_channels = (Some 10, None),
      snap_flags = [],
      snap_player_activity = [],
      snap_quantities = [],
      snap_proposals =
        [\<lparr>n = 1, author = 3, timestamp = 100, status = Passed, message_id = Some 51, votes = []\<rparr>,
         \<lparr>n = 2, author = 4, timestamp = 200, status = Voting, message_id = Some 52, votes = [(''for'', [(3, 1)])]\<rparr>,
         \<lparr>n = 3, author = 3, timestamp = 300, status = Voting, message_id = Some 53, votes = [(''against'', [(4, 2)])]\<rparr>],
      snap_rules = [(''root'', \<lparr>tag = ''root'', title = None, content = None, parent = None, children = []\<rparr>)]\<rparr>"

definition example_game :: Game where
  "example_game =
     \<lparr>lock = False, owned_thread_id = None, db = example_snapshot, flags = [],
      proposals = snap_proposals example_snapshot,
      game_quantities = [],
      rules = snap_rules example_snapshot,
      player_activity = [],
      proposals_channel = Some 10,
      rules_channel = None\<rparr>"

definition orphan_rules :: "(string \<times> Rule) list" where
  "orphan_rules =
     [(''root'', \<lparr>tag = ''root'', title = None, content = None, parent = None, children = [''a'']\<rparr>),
      (''a'', \<lparr>tag = ''a'', title = Some ''A'', content = None, parent = None, children = []\<rparr>)]"

definition held_game :: Game where
  "held_game = example_game\<lparr>lock := True, owned_thread_id := Some (Some 7)\<rparr>"

subsection \<open>Notions used to state the loader's properties\<close>

text \<open>
  \<open>grows\<close>: a call of the loader only appends to the table.  \<open>sound\<close>: every
  entry it adds is the document's entry for that tag, and keys stay distinct.
  \<open>reloads\<close>: a successful call gives the same table again on any part of the
  document that agrees with it on the tags the call added.
\<close>

definition grows :: "rule_state \<Rightarrow> ((py_exception + unit) \<times> rule_state) option \<Rightarrow> bool" where
  "grows st res = (case res of None \<Rightarrow> True | Some (r, tab', w') \<Rightarrow> (\<exists>more. tab' = fst st @ more))"

definition sound ::
  "(string \<times> Rule) list \<Rightarrow> rule_state \<Rightarrow> ((py_exception + unit) \<times> rule_state) option \<Rightarrow> bool" where
  "sound D st res =
     (case res of
        None \<Rightarrow> True
      | Some (r, tab', w') \<Rightarrow>
          (distinct (map fst (fst st)) \<longrightarrow> distinct (map fst tab'))
          \<and> (\<forall>k v. (k, v) \<in> set tab' \<longrightarrow> (k, v) \<in> set (fst st) \<or> map_of D k = Some v))"

definition reloads ::
  "(string \<times> Rule) list \<Rightarrow> (string \<times> Rule) list \<Rightarrow> rule_state
     \<Rightarrow> ((py_exception + unit) \<times> rule_state) option
     \<Rightarrow> (warning list \<Rightarrow> ((py_exception + unit) \<times> rule_state) option) \<Rightarrow> bool" where
  "reloads D D' st res again =
     (case res of
        Some (Inr u, tab', w') \<Rightarrow>
          (\<forall>k \<in> fst ` set tab' - fst ` set (fst st). map_of D' k = map_of D k)
            \<longrightarrow> (\<forall>w0. \<exists>w''. again w0 = Some (Inr (), tab', w''))
      | _ \<Rightarrow> True)"

text \<open>A game with a rule tree of three nodes and two quantities, one with unsorted aliases.\<close>

definition tree_rules :: "(string \<times> Rule) list" where
  "tree_rules =
     [(''root'', \<lparr>tag = ''root'', title = None, content = None, parent = None, children = [''b'', ''a'']\<rparr>),
      (''b'', \<lparr>tag = ''b'', title = Some ''B'', content = Some ''second'', parent = Some ''root'', children = []\<rparr>),
      (''a'', \<lparr>tag = ''a'', title = Some ''A'', content = Some ''first'', parent = Some ''root'', children = []\<rparr>)]"

definition tree_game :: Game where
  "tree_game =
     \<lparr>lock = False, owned_thread_id = None, db = example_snapshot, flags = [],
      proposals = snap_proposals example_snapshot,
      game_quantities =
        [(''points'', \<lparr>name = ''points'', aliases = [''pts'', ''p''], players = [(4, PyInt 2), (3, PyInt 5)],
                        default_value = PyInt 0\<rparr>),
         (''gold'', \<lparr>name = ''gold'', aliases = [], players = [], default_value = PyFloat (1 / 2)\<rparr>)],
      rules = tree_rules,
      player_activity = [],
      proposals_channel = Some 10,
      rules_channel = None\<rparr>"

text \<open>Two tasks of the one thread 7 of the scheduler.\<close>

definition holder_task :: Caller where
  "holder_task = \<lparr>task = 1, thread = 7\<rparr>"

definition other_task :: Caller where
  "other_task = \<lparr>task = 2, thread = 7\<rparr>"

text \<open>
  The channel of the example game after message 52 was deleted from outside: messages
  51 and 53 are left, and the next message gets id 54.
\<close>

definition example_channel :: Channel where
  "example_channel = \<lparr>existing = [51, 53], next_id = 54\<rparr>"

section \<open>Properties of quantities\<close>

lemma py_eq_refl: "py_eq a a" by (simp add: py_eq_def)
lemma py_eq_sym: "py_eq a b = py_eq b a" by (auto simp: py_eq_def)
lemma py_eq_trans: "py_eq a b \<Longrightarrow> py_eq b c \<Longrightarrow> py_eq a c" by (simp add: py_eq_def)

lemma py_int_trunc: "of_int (py_int v) = num_val v \<longleftrightarrow> frac (num_val v) = 0"
  by (cases v) (auto simp: frac_def)

lemma py_int_floor: "frac (num_val v) = 0 \<Longrightarrow> py_int v = \<lfloor>num_val v\<rfloor>"
proof (cases v)
  case (PyInt i)
  then show ?thesis by simp
next
  case (PyFloat r)
  assume "frac (num_val v) = 0"
  with PyFloat have "r = of_int \<lfloor>r\<rfloor>" by (simp add: frac_def)
  then have "\<lceil>r\<rceil> = \<lfloor>r\<rfloor>" by (metis ceiling_of_int)
  with PyFloat show ?thesis by simp
qed

lemma coerce_frac: "coerce v = (if frac (num_val v) = 0 then PyInt \<lfloor>num_val v\<rfloor> else v)"
  by (simp add: coerce_def py_eq_def py_int_trunc py_int_floor)

lemma coerce_py_eq: "py_eq (coerce v) v"
  by (simp add: coerce_def py_eq_def)

lemma map_of_dict_items: "map_of (dict_items d) k = map_of d k"
proof (cases "k \<in> set (map fst d)")
  case True
  then obtain v where "map_of d k = Some v" by (metis map_of_eq_None_iff not_Some_eq set_map)
  moreover have "map_of (map (\<lambda>k. (k, the (map_of d k))) (remdups (map fst d))) k = Some (the (map_of d k))"
    using True by (intro map_of_is_SomeI) (auto simp: comp_def)
  ultimately show ?thesis by (simp add: dict_items_def)
next
  case False
  then have "map_of d k = None" by (simp add: map_of_eq_None_iff)
  moreover have "map_of (dict_items d) k = None"
    using False by (simp add: dict_items_def map_of_eq_None_iff image_image)
  ultimately show ?thesis by simp
qed

lemma keys_dict_items: "map fst (dict_items d) = remdups (map fst d)"
  by (simp add: dict_items_def comp_def)

lemma distinct_sorted_items: "distinct (map fst (sorted_items d))"
  by (metis distinct_map distinct_remdups distinct_sort keys_dict_items
    set_sort sorted_items_def)

lemma map_of_sorted_items: "map_of (sorted_items d) k = map_of d k"
  by (metis distinct_map distinct_remdups distinct_sort keys_dict_items
    map_of_dict_items map_of_inject_set set_sort sorted_items_def)

lemma set_each_default: "default_value (set_each its q) = default_value q"
  by (induction its q rule: set_each.induct) (auto simp: Quantity_set_def Let_def)

lemma Quantity_set_lookup:
  "map_of (players (Quantity_set q p v)) p' =
     (if p' = p then (if py_eq (coerce v) (default_value q) then None else Some (coerce v))
      else map_of (players q) p')"
proof (cases "py_eq (coerce v) (default_value q)")
  case True
  show ?thesis
  proof (cases "p \<in> fst ` set (players q)")
    case yes: True
    with True show ?thesis
      by (simp add: Quantity_set_def AList.delete_conv')
  next
    case no: False
    then have "map_of (players q) p = None" by (simp add: map_of_eq_None_iff)
    with True no show ?thesis
      by (simp add: Quantity_set_def)
  qed
next
  case False
  then show ?thesis
    by (simp add: Quantity_set_def AList.update_conv')
qed

lemma set_each_lookup:
  "distinct (map fst its) \<Longrightarrow>
   map_of (players (set_each its q)) p =
     (case map_of its p of
        None \<Rightarrow> map_of (players q) p
      | Some v \<Rightarrow> if py_eq (coerce v) (default_value q) then None else Some (coerce v))"
proof (induction its q rule: set_each.induct)
  case (1 q)
  then show ?case by simp
next
  case (2 p' v rest q)
  have dv: "default_value (Quantity_set q p' v) = default_value q"
    by (simp add: Quantity_set_def Let_def)
  from 2 have "p' \<notin> fst ` set rest" and d: "distinct (map fst rest)" by auto
  then have none: "map_of rest p' = None" by (simp add: map_of_eq_None_iff)
  show ?case
  proof (cases "p = p'")
    case True
    with none show ?thesis
      using "2.IH"[OF d] by (simp add: Quantity_set_lookup dv split: option.splits)
  next
    case False
    then show ?thesis
      using "2.IH"[OF d] by (simp add: Quantity_set_lookup dv split: option.splits)
  qed
qed

lemma Quantity_set_default_value: "default_value (Quantity_set q p v) = default_value q"
  by (simp add: Quantity_set_def Let_def)

lemma sparse_iff:
  "sparse q \<longleftrightarrow> (\<forall>p v. map_of (players q) p = Some v \<longrightarrow> \<not> py_eq v (default_value q))"
proof
  assume s: "sparse q"
  show "\<forall>p v. map_of (players q) p = Some v \<longrightarrow> \<not> py_eq v (default_value q)"
  proof (intro allI impI)
    fix p v assume m: "map_of (players q) p = Some v"
    then have "p \<in> fst ` set (players q)" by (metis map_of_eq_None_iff option.distinct(1))
    with s have "\<not> py_eq (Quantity_get q p) (default_value q)" by (auto simp: sparse_def)
    with m show "\<not> py_eq v (default_value q)" by (simp add: Quantity_get_def)
  qed
next
  assume a: "\<forall>p v. map_of (players q) p = Some v \<longrightarrow> \<not> py_eq v (default_value q)"
  show "sparse q"
    unfolding sparse_def
  proof
    fix p assume "p \<in> fst ` set (players q)"
    then obtain v where m: "map_of (players q) p = Some v"
      by (metis map_of_eq_None_iff not_Some_eq)
    with a have "\<not> py_eq v (default_value q)" by blast
    with m show "\<not> py_eq (Quantity_get q p) (default_value q)" by (simp add: Quantity_get_def)
  qed
qed

lemma sparse_Quantity_set: "sparse q \<Longrightarrow> sparse (Quantity_set q p v)"
  unfolding sparse_iff
  by (auto simp: Quantity_set_lookup Quantity_set_default_value split: if_splits)

text \<open>
  Claim C7.  \<open>Quantity.set\<close> stores the value coerced to an integer when its
  fractional part is zero; when the coerced value equals the default the player's entry
  is deleted, otherwise the coerced value is stored; no other player's entry changes.
  \<open>Quantity.get\<close> reads the stored value or the default.  After a \<open>set\<close> for a
  player, that player reading as the default is absent from the stored mapping, and the
  sparse-storage invariant is preserved.
\<close>

theorem Quantity_set_get_sparse:
  "coerce v = (if frac (num_val v) = 0 then PyInt \<lfloor>num_val v\<rfloor> else v)
   \<and> map_of (players (Quantity_set q p v)) p =
       (if py_eq (coerce v) (default_value q) then None else Some (coerce v))
   \<and> (\<forall>p'. p' \<noteq> p \<longrightarrow> map_of (players (Quantity_set q p v)) p' = map_of (players q) p')
   \<and> default_value (Quantity_set q p v) = default_value q
   \<and> Quantity_get q p = (case map_of (players q) p of Some x \<Rightarrow> x | None \<Rightarrow> default_value q)
   \<and> (py_eq (Quantity_get (Quantity_set q p v) p) (default_value q)
        \<longrightarrow> p \<notin> fst ` set (players (Quantity_set q p v)))
   \<and> (sparse q \<longrightarrow> sparse (Quantity_set q p v))"
proof (intro conjI)
  show "coerce v = (if frac (num_val v) = 0 then PyInt \<lfloor>num_val v\<rfloor> else v)"
    by (rule coerce_frac)
  show look: "map_of (players (Quantity_set q p v)) p =
       (if py_eq (coerce v) (default_value q) then None else Some (coerce v))"
    by (simp add: Quantity_set_lookup)
  show "\<forall>p'. p' \<noteq> p \<longrightarrow> map_of (players (Quantity_set q p v)) p' = map_of (players q) p'"
    by (simp add: Quantity_set_lookup)
  show "default_value (Quantity_set q p v) = default_value q"
    by (rule Quantity_set_default_value)
  show "Quantity_get q p = (case map_of (players q) p of Some x \<Rightarrow> x | None \<Rightarrow> default_value q)"
    by (simp add: Quantity_get_def)
  show "py_eq (Quantity_get (Quantity_set q p v) p) (default_value q)
        \<longrightarrow> p \<notin> fst ` set (players (Quantity_set q p v))"
  proof
    assume eq: "py_eq (Quantity_get (Quantity_set q p v) p) (default_value q)"
    have "py_eq (coerce v) (default_value q)"
    proof (rule ccontr)
      assume n: "\<not> py_eq (coerce v) (default_value q)"
      with look have "Quantity_get (Quantity_set q p v) p = coerce v"
        by (simp add: Quantity_get_def)
      with eq n show False by simp
    qed
    with look have "map_of (players (Quantity_set q p v)) p = None" by simp
    then show "p \<notin> fst ` set (players (Quantity_set q p v))"
      by (simp add: map_of_eq_None_iff)
  qed
  show "sparse q \<longrightarrow> sparse (Quantity_set q p v)"
    by (simp add: sparse_Quantity_set)
qed

theorem Quantity_set_get_sparse_witness:
  "sparse \<lparr>name = ''points'', aliases = [], players = [(3, PyInt 5)], default_value = PyInt 0\<rparr>
   \<and> Quantity_set \<lparr>name = ''points'', aliases = [], players = [(3, PyInt 5)], default_value = PyInt 0\<rparr> 3 (PyFloat 0)
       = \<lparr>name = ''points'', aliases = [], players = [], default_value = PyInt 0\<rparr>
   \<and> py_eq (Quantity_get (Quantity_set \<lparr>name = ''points'', aliases = [], players = [(3, PyInt 5)], default_value = PyInt 0\<rparr> 3 (PyFloat 0)) 3) (PyInt 0)
   \<and> 3 \<notin> fst ` set (players (Quantity_set \<lparr>name = ''points'', aliases = [], players = [(3, PyInt 5)], default_value = PyInt 0\<rparr> 3 (PyFloat 0)))
   \<and> sparse (Quantity_set \<lparr>name = ''points'', aliases = [], players = [(3, PyInt 5)], default_value = PyInt 0\<rparr> 3 (PyFloat 0))
   \<and> map_of (players (Quantity_set \<lparr>name = ''points'', aliases = [], players = [(3, PyInt 5)], default_value = PyInt 0\<rparr> 4 (PyFloat 7))) 3 = Some (PyInt 5)
   \<and> map_of (players (Quantity_set \<lparr>name = ''points'', aliases = [], players = [(3, PyInt 5)], default_value = PyInt 0\<rparr> 4 (PyFloat 7))) 4 = Some (PyInt 7)"
proof -
  let ?q = "\<lparr>name = ''points'', aliases = [], players = [(3, PyInt 5)], default_value = PyInt 0\<rparr>"
  have s: "sparse ?q" by (simp add: sparse_def Quantity_get_def py_eq_def)
  have e: "Quantity_set ?q 3 (PyFloat 0) = \<lparr>name = ''points'', aliases = [], players = [], default_value = PyInt 0\<rparr>"
    by (simp add: Quantity_set_def coerce_def py_eq_def)
  have g: "py_eq (Quantity_get (Quantity_set ?q 3 (PyFloat 0)) 3) (default_value ?q)"
    by (simp add: e Quantity_get_def py_eq_def)
  have ne: "(3::nat) \<noteq> 4" by simp
  note a = Quantity_set_get_sparse [of "PyFloat 0" ?q 3]
  note b = Quantity_set_get_sparse [of "PyFloat 7" ?q 4]
  from a g have c1: "3 \<notin> fst ` set (players (Quantity_set ?q 3 (PyFloat 0)))" by blast
  from a s have c2: "sparse (Quantity_set ?q 3 (PyFloat 0))" by blast
  from b ne have c3: "map_of (players (Quantity_set ?q 4 (PyFloat 7))) 3 = map_of (players ?q) 3" by blast
  from b have c4: "map_of (players (Quantity_set ?q 4 (PyFloat 7))) 4 = Some (PyInt 7)"
    by (simp add: py_eq_def)
  from s e g c1 c2 c3 c4 show ?thesis by simp
qed


lemma save_heap: "heap (QuantityManager_save s) = heap s"
  by (simp add: QuantityManager_save_def)

text \<open>
  Claim C8, amended.  Under the lock, \<open>set_quantity_default\<close> succeeds, makes the
  given number the default, and leaves no stored entry equal to it; every player that had
  a stored entry reads a value equal (by \<open>==\<close>) to the one read before, and every
  player without a stored entry now reads the new default.
\<close>

theorem set_quantity_default_renormalises:
  fixes s r d
  defines "q \<equiv> heap s r"
      and "q' \<equiv> heap (snd (set_quantity_default s r d)) r"
  assumes "locked s"
  shows "fst (set_quantity_default s r d) = Inr ()
     \<and> default_value q' = d
     \<and> sparse q'
     \<and> (\<forall>p \<in> fst ` set (players q). py_eq (Quantity_get q' p) (Quantity_get q p))
     \<and> (\<forall>p. p \<notin> fst ` set (players q) \<longrightarrow> Quantity_get q' p = d)"
proof -
  let ?q1 = "q\<lparr>default_value := d\<rparr>"
  have q': "q' = set_each (sorted_items (players q)) ?q1"
    using assms by (simp add: set_quantity_default_def Let_def save_heap)
  have dv: "default_value q' = d"
    by (simp add: q' set_each_default)
  have look: "map_of (players q') p =
      (case map_of (players q) p of None \<Rightarrow> None
       | Some v \<Rightarrow> if py_eq (coerce v) d then None else Some (coerce v))" for p
    unfolding q'
    by (simp add: set_each_lookup [OF distinct_sorted_items] map_of_sorted_items
        split: option.splits)
  have sp: "sparse q'"
    unfolding sparse_iff dv
    by (auto simp: look split: option.splits if_splits)
  have stored: "py_eq (Quantity_get q' p) (Quantity_get q p)" if "p \<in> fst ` set (players q)" for p
  proof -
    from that obtain v where m: "map_of (players q) p = Some v"
      by (metis map_of_eq_None_iff not_Some_eq)
    show ?thesis
    proof (cases "py_eq (coerce v) d")
      case True
      then have "py_eq d v" using coerce_py_eq [of v] by (simp add: py_eq_def)
      with True m show ?thesis by (simp add: Quantity_get_def look dv)
    next
      case False
      with m show ?thesis by (simp add: Quantity_get_def look coerce_py_eq)
    qed
  qed
  have absent: "Quantity_get q' p = d" if "p \<notin> fst ` set (players q)" for p
  proof -
    from that have "map_of (players q) p = None" by (simp add: map_of_eq_None_iff)
    then show ?thesis by (simp add: Quantity_get_def look dv)
  qed
  from assms(3) have "fst (set_quantity_default s r d) = Inr ()"
    by (simp add: set_quantity_default_def Let_def)
  with dv sp stored absent show ?thesis by blast
qed

lemma ex_eval: "heap (snd (set_quantity_default example_registry 0 (PyInt 2))) 0 =
   \<lparr>name = ''points'', aliases = [''pts''], players = [(3, PyInt 5)], default_value = PyInt 2\<rparr>"
  by (simp add: set_quantity_default_def example_registry_def Let_def save_heap sorted_items_def dict_items_def
      Quantity_set_def coerce_def py_eq_def)

theorem set_quantity_default_renormalises_witness:
  "locked example_registry
   \<and> heap (snd (set_quantity_default example_registry 0 (PyInt 2))) 0 =
       \<lparr>name = ''points'', aliases = [''pts''], players = [(3, PyInt 5)], default_value = PyInt 2\<rparr>
   \<and> sparse (heap (snd (set_quantity_default example_registry 0 (PyInt 2))) 0)
   \<and> py_eq (Quantity_get (heap (snd (set_quantity_default example_registry 0 (PyInt 2))) 0) 4)
            (Quantity_get (heap example_registry 0) 4)
   \<and> Quantity_get (heap (snd (set_quantity_default example_registry 0 (PyInt 2))) 0) 9 = PyInt 2"
proof -
  have l: "locked example_registry" by (simp add: example_registry_def)
  have in4: "4 \<in> fst ` set (players (heap example_registry 0))"
    by (simp add: example_registry_def)
  have out9: "9 \<notin> fst ` set (players (heap example_registry 0))"
    by (simp add: example_registry_def)
  note t = set_quantity_default_renormalises [OF l, of 0 "PyInt 2"]
  from t have a: "sparse (heap (snd (set_quantity_default example_registry 0 (PyInt 2))) 0)" by blast
  from t in4 have b: "py_eq (Quantity_get (heap (snd (set_quantity_default example_registry 0 (PyInt 2))) 0) 4)
            (Quantity_get (heap example_registry 0) 4)" by blast
  from t out9 have c: "Quantity_get (heap (snd (set_quantity_default example_registry 0 (PyInt 2))) 0) 9 = PyInt 2" by blast
  from l a b c ex_eval show ?thesis by blast
qed

text \<open>
  Claim C8 as stated fails for a player without a stored entry: player 9 reads 0 before
  the default of the example quantity is set to 2, and 2 afterwards.
\<close>

theorem set_quantity_default_get_changes:
  "locked example_registry
   \<and> Quantity_get (heap example_registry 0) 9 = PyInt 0
   \<and> Quantity_get (heap (snd (set_quantity_default example_registry 0 (PyInt 2))) 0) 9 = PyInt 2
   \<and> \<not> py_eq (Quantity_get (heap (snd (set_quantity_default example_registry 0 (PyInt 2))) 0) 9)
              (Quantity_get (heap example_registry 0) 9)"
  by (simp add: ex_eval Quantity_get_def py_eq_def) (simp add: example_registry_def)


section \<open>Properties of the registry\<close>

lemma lower_char_idem: "lower_char (lower_char c) = lower_char c"
  by (simp add: lower_char_def)

lemma lower_idem: "lower (lower s) = lower s"
  by (simp add: lower_def lower_char_idem)

lemma check_quantity_name_error:
  "check_quantity_name s nm ig = Inl e \<Longrightarrow> \<exists>rsn. e = ValueError rsn"
  by (auto simp: check_quantity_name_def split: if_splits)

lemma get_quantity_collides:
  assumes "lower_case_registry s" "collides s nm"
  shows "get_quantity s (lower nm) \<noteq> None"
proof -
  from assms(2) obtain k r where kr: "(k, r) \<in> set (quantities s)"
    and c: "lower nm = lower k \<or> lower nm \<in> lower ` set (aliases (heap s r))"
    by (auto simp: collides_def)
  from assms(1) kr have lk: "lower k = k" and la: "\<forall>a \<in> set (aliases (heap s r)). lower a = a"
    by (auto simp: lower_case_registry_def)
  show ?thesis
  proof (cases "map_of (quantities s) (lower nm)")
    case (Some r')
    then show ?thesis by (simp add: get_quantity_def lower_idem)
  next
    case None
    with kr lk have "lower nm \<noteq> lower k"
      by (metis map_of_eq_None_iff fst_conv image_eqI)
    with c la have "lower nm \<in> set (aliases (heap s r))" by auto
    with kr have "find (\<lambda>(k, r). lower nm \<in> set (aliases (heap s r))) (quantities s) \<noteq> None"
      by (auto simp: find_None_iff)
    with None show ?thesis by (simp add: get_quantity_def lower_idem)
  qed
qed

lemma check_each_collides:
  assumes "lower_case_registry s" "\<exists>x \<in> set ns. collides s x"
  shows "\<exists>rsn. check_each s (map lower ns) None = Inl (ValueError rsn)"
  using assms(2)
proof (induction ns)
  case Nil
  then show ?case by simp
next
  case (Cons a ns)
  show ?case
  proof (cases "check_quantity_name s (lower a) None")
    case (Inl e)
    then show ?thesis using check_quantity_name_error [OF Inl] by auto
  next
    case (Inr u)
    then have "get_quantity s (lower a) = None"
      by (auto simp: check_quantity_name_def split: if_splits)
    with get_quantity_collides [OF assms(1)] have "\<not> collides s a" by blast
    with Cons.prems have "\<exists>x \<in> set ns. collides s x" by simp
    with Cons.IH Inr show ?thesis by simp
  qed
qed

text \<open>
  On a registry whose stored names and aliases are in lower case, an
  \<open>add_quantity\<close> whose name or one of whose aliases collides case-insensitively with
  a stored name or alias fails and returns the registry, the persisted document
  included, exactly as it was; under the lock the failure is a \<open>ValueError\<close>.
\<close>

theorem add_quantity_collision:
  assumes "lower_case_registry s"
      and "\<exists>x \<in> set (quantity_name # als). collides s x"
  shows "snd (add_quantity s quantity_name als) = s
     \<and> (\<exists>e. fst (add_quantity s quantity_name als) = Inl e)
     \<and> (locked s \<longrightarrow> (\<exists>rsn. fst (add_quantity s quantity_name als) = Inl (ValueError rsn)))"
proof (cases "locked s")
  case False
  then show ?thesis by (simp add: add_quantity_def)
next
  case True
  from check_each_collides [OF assms] obtain rsn
    where "check_each s (map lower (quantity_name # als)) None = Inl (ValueError rsn)" by blast
  with True show ?thesis by (simp add: add_quantity_def Let_def)
qed

lemma ex_lc: "lower_case_registry example_registry"
  by (simp add: lower_case_registry_def example_registry_def lower_def lower_char_def)

lemma ex_col: "collides example_registry ''PTS''"
  by (simp add: collides_def example_registry_def lower_def lower_char_def)

theorem add_quantity_collision_witness:
  "lower_case_registry example_registry
   \<and> collides example_registry ''PTS''
   \<and> locked example_registry
   \<and> add_quantity example_registry ''score'' [''PTS''] = (Inl (ValueError (InUse ''pts'')), example_registry)"
proof -
  have c: "\<exists>x \<in> set (''score'' # [''PTS'']). collides example_registry x"
    using ex_col by simp
  have l: "locked example_registry" by (simp add: example_registry_def)
  from add_quantity_collision [OF ex_lc c] l
  have u: "snd (add_quantity example_registry ''score'' [''PTS'']) = example_registry"
    and "\<exists>rsn. fst (add_quantity example_registry ''score'' [''PTS'']) = Inl (ValueError rsn)"
    by blast+
  have "fst (add_quantity example_registry ''score'' [''PTS'']) = Inl (ValueError (InUse ''pts''))"
    by (simp add: add_quantity_def example_registry_def lower_def lower_char_def Let_def
        check_quantity_name_def re_match_name_def name_head_def get_quantity_def)
  with u have "add_quantity example_registry ''score'' [''PTS''] = (Inl (ValueError (InUse ''pts'')), example_registry)"
    by (metis prod.collapse)
  with ex_lc ex_col l show ?thesis by blast
qed

text \<open>
  Claim C6.  The registry does not keep its stored aliases in lower case:
  \<open>set_quantity_aliases\<close> does not lower-case and the name test lets \<open>aB\<close>
  pass.  After \<open>set_quantity_aliases(points, ["aB"])\<close> the call
  \<open>add_quantity("AB", [])\<close> collides case-insensitively with the alias \<open>aB\<close>,
  yet it succeeds and registers the quantity \<open>ab\<close>.
\<close>

theorem add_quantity_misses_upper_case_alias:
  "fst (set_quantity_aliases example_registry 0 [''aB'']) = Inr ()
   \<and> aliases (heap (snd (set_quantity_aliases example_registry 0 [''aB''])) 0) = [''aB'']
   \<and> collides (snd (set_quantity_aliases example_registry 0 [''aB''])) ''AB''
   \<and> fst (add_quantity (snd (set_quantity_aliases example_registry 0 [''aB''])) ''AB'' []) = Inr 1
   \<and> quantities (snd (add_quantity (snd (set_quantity_aliases example_registry 0 [''aB''])) ''AB'' []))
       = [(''points'', 0), (''ab'', 1)]"
proof -
  have s1: "set_quantity_aliases example_registry 0 [''aB''] =
      (Inr (), QuantityManager_save
         (example_registry\<lparr>heap := (heap example_registry)
            (0 := (heap example_registry 0)\<lparr>aliases := [''aB'']\<rparr>)\<rparr>))"
    by (simp add: set_quantity_aliases_def example_registry_def check_quantity_name_def
        re_match_name_def name_head_def get_quantity_def lower_def lower_char_def)
  show ?thesis
    unfolding s1
    by (simp add: add_quantity_def example_registry_def check_quantity_name_def
        re_match_name_def name_head_def get_quantity_def lower_def lower_char_def
        QuantityManager_save_def collides_def Let_def)
qed

text \<open>
  Claim C5.  The source tests the name with \<open>re.match\<close> and a pattern without the
  closing anchor, so only the first character is constrained: on the empty registry
  \<open>add_quantity("a!", [])\<close> succeeds and registers the quantity \<open>a!\<close>, a name
  the format \<open>^[0-9a-z][0-9a-z\-_]*$\<close> rejects.
\<close>

theorem add_quantity_accepts_malformed_name:
  "\<not> spec_name_format (lower ''a!'')
   \<and> fst (add_quantity empty_registry ''a!'' []) = Inr 0
   \<and> quantities (snd (add_quantity empty_registry ''a!'' [])) = [(''a!'', 0)]
   \<and> name (heap (snd (add_quantity empty_registry ''a!'' [])) 0) = ''a!''"
  by (simp add: spec_name_format_def name_head_def name_tail_def add_quantity_def empty_registry_def
      lower_def lower_char_def Let_def check_quantity_name_def re_match_name_def get_quantity_def
      QuantityManager_save_def)





section \<open>Properties of the game\<close>

text \<open>
  Claim C9, amended.  \<open>save\<close> called from a thread whose id is not the stamp on the
  game raises in \<open>assert_locked\<close>, \<open>RuntimeError\<close>, or \<open>AttributeError\<close>
  while the attribute has never been assigned, and leaves the game and its store
  untouched.  Acquisition stamps the id of the caller's thread, after which a \<open>save\<close>
  from that thread writes the export; release clears the stamp, after which \<open>save\<close>
  raises again.
\<close>

theorem save_requires_lock:
  "(owned_thread_id g \<noteq> Some (Some caller) \<longrightarrow>
      Game_save g caller =
        (Inl (if owned_thread_id g = None then AttributeError else RuntimeError), g))
   \<and> (\<forall>g'. aenter g caller = Some g' \<longrightarrow>
         owned_thread_id g' = Some (Some caller)
         \<and> Game_save g' caller = (Inr (), g'\<lparr>db := Game_export g'\<rparr>))
   \<and> owned_thread_id (snd (aexit g)) = Some None
   \<and> Game_save (snd (aexit g)) caller = (Inl RuntimeError, snd (aexit g))"
  by (auto simp: Game_save_def assert_locked_def aenter_def aexit_def Let_def
      split: option.splits if_splits)

theorem save_requires_lock_witness:
  "owned_thread_id example_game \<noteq> Some (Some 7)
   \<and> Game_save example_game 7 = (Inl AttributeError, example_game)
   \<and> aenter example_game 7 = Some (example_game\<lparr>lock := True, owned_thread_id := Some (Some 7)\<rparr>)
   \<and> owned_thread_id (example_game\<lparr>lock := True, owned_thread_id := Some (Some 7)\<rparr>) \<noteq> Some (Some 8)
   \<and> Game_save (example_game\<lparr>lock := True, owned_thread_id := Some (Some 7)\<rparr>) 8
       = (Inl RuntimeError, example_game\<lparr>lock := True, owned_thread_id := Some (Some 7)\<rparr>)
   \<and> fst (Game_save (example_game\<lparr>lock := True, owned_thread_id := Some (Some 7)\<rparr>) 7) = Inr ()"
proof -
  let ?g = "example_game\<lparr>lock := True, owned_thread_id := Some (Some 7)\<rparr>"
  have a: "owned_thread_id example_game \<noteq> Some (Some 7)"
    and n: "owned_thread_id example_game = None"
    by (simp_all add: example_game_def)
  have e: "aenter example_game 7 = Some ?g"
    by (simp add: aenter_def example_game_def)
  have b: "owned_thread_id ?g \<noteq> Some (Some 8)" "owned_thread_id ?g \<noteq> None" by simp_all
  from save_requires_lock [of example_game 7] a n
  have 1: "Game_save example_game 7 = (Inl AttributeError, example_game)" by simp
  from save_requires_lock [of ?g 8] b
  have 2: "Game_save ?g 8 = (Inl RuntimeError, ?g)" by simp
  from save_requires_lock [of example_game 7] e
  have 3: "fst (Game_save ?g 7) = Inr ()" by simp
  from a 1 e b 2 3 show ?thesis by blast
qed

text \<open>
  Claim C9 as stated fails for a task that shares its thread with the holder: task 1
  acquires the lock of the game on thread 7; task 2, also of thread 7, has acquired
  nothing, and its \<open>save\<close> passes \<open>assert_locked\<close> and overwrites the store.
\<close>

theorem save_by_other_task_succeeds:
  "task other_task \<noteq> task holder_task
   \<and> aenter tree_game (get_ident holder_task) =
       Some (tree_game\<lparr>lock := True, owned_thread_id := Some (Some 7)\<rparr>)
   \<and> fst (Game_save (tree_game\<lparr>lock := True, owned_thread_id := Some (Some 7)\<rparr>)
              (get_ident other_task)) = Inr ()
   \<and> db (snd (Game_save (tree_game\<lparr>lock := True, owned_thread_id := Some (Some 7)\<rparr>)
                 (get_ident other_task)))
       = Game_export (tree_game\<lparr>lock := True, owned_thread_id := Some (Some 7)\<rparr>)
   \<and> map fst (snap_quantities (db (tree_game\<lparr>lock := True, owned_thread_id := Some (Some 7)\<rparr>))) = []
   \<and> map fst (snap_quantities (db (snd (Game_save (tree_game\<lparr>lock := True, owned_thread_id := Some (Some 7)\<rparr>)
                 (get_ident other_task))))) = [''gold'', ''points'']"
  by (simp add: holder_task_def other_task_def get_ident_def aenter_def Game_save_def
      assert_locked_def)
     (simp add: tree_game_def example_snapshot_def Game_export_def sort_dict_def dict_items_def)

text \<open>
  Claim C4.  On a document whose root lists the child \<open>a\<close> and whose node \<open>a\<close>
  names no parent, the loader logs the inconsistency and then raises
  \<open>AttributeError\<close>, at every recursion bound that reaches the node; the constructor
  of the game raises with it.
\<close>

theorem load_rule_orphan_raises:
  "load_rule (Suc (Suc depth)) orphan_rules ''root'' ([], []) =
     Some (Inl AttributeError,
           [(''root'', \<lparr>tag = ''root'', title = None, content = None, parent = None, children = [''a'']\<rparr>)],
           [NoParent ''a''])
   \<and> Game_init (Suc (Suc depth)) guild True (example_snapshot\<lparr>snap_rules := orphan_rules\<rparr>) =
       Some (Inl AttributeError, [NoParent ''a''])"
  by (simp add: Game_init_def orphan_rules_def Rule_init_def Rule_parent_def)

lemma numbered_nth: "numbered ps \<Longrightarrow> i < length ps \<Longrightarrow> n (ps ! i) = int i + 1"
proof -
  assume a: "numbered ps" and b: "i < length ps"
  from b have "n (ps ! i) = map n ps ! i" by simp
  also from a have "\<dots> = map int [1..<Suc (length ps)] ! i" by (simp add: numbered_def)
  also from b have "\<dots> = int i + 1" by (simp add: nth_append del: upt_Suc)
  finally show ?thesis .
qed

lemma numbered_iff: "numbered ps \<longleftrightarrow> (\<forall>i < length ps. n (ps ! i) = int i + 1)"
proof
  assume "numbered ps" then show "\<forall>i < length ps. n (ps ! i) = int i + 1"
    by (simp add: numbered_nth)
next
  assume a: "\<forall>i < length ps. n (ps ! i) = int i + 1"
  show "numbered ps"
    unfolding numbered_def
    by (rule nth_equalityI) (use a in \<open>auto simp del: upt_Suc\<close>)
qed

lemma without_length:
  "1 \<le> k \<Longrightarrow> k \<le> int (length ps) \<Longrightarrow> length (proposals_without k ps) = length ps - 1"
  by (auto simp: proposals_without_def)

lemma without_nth_low:
  assumes "numbered ps" "1 \<le> k" "k \<le> int (length ps)" "i < nat (k - 1)"
  shows "proposals_without k ps ! i = ps ! i"
proof -
  from assms have il: "i < length ps" by linarith
  with assms(1) have "n (ps ! i) = int i + 1" by (rule numbered_nth)
  with assms have "\<not> k < n (ps ! i)" by linarith
  moreover from assms il have "(take (nat (k - 1)) ps @ drop (nat k) ps) ! i = ps ! i"
    by (simp add: nth_append)
  moreover from assms il have "i < length (take (nat (k - 1)) ps @ drop (nat k) ps)" by auto
  ultimately show ?thesis unfolding proposals_without_def by (simp only: nth_map if_False)
qed

lemma without_nth_high:
  assumes "numbered ps" "1 \<le> k" "k \<le> int (length ps)" "nat (k - 1) \<le> i" "Suc i < length ps"
  shows "proposals_without k ps ! i = (ps ! Suc i)\<lparr>n := int i + 1\<rparr>"
proof -
  from assms(1,5) have nn: "n (ps ! Suc i) = int (Suc i) + 1" by (rule numbered_nth)
  with assms have gt: "k < n (ps ! Suc i)" by linarith
  from assms have len: "i < length (take (nat (k - 1)) ps @ drop (nat k) ps)" by auto
  from assms have "nat k + (i - nat (k - 1)) = Suc i" by linarith
  with assms have "(take (nat (k - 1)) ps @ drop (nat k) ps) ! i = ps ! Suc i"
    by (simp add: nth_append min_def)
  with len gt nn have "proposals_without k ps ! i = (ps ! Suc i)\<lparr>n := n (ps ! Suc i) - 1\<rparr>"
    unfolding proposals_without_def by (simp only: nth_map if_True)
  with nn show ?thesis by simp
qed

text \<open>
  Claim C3.  In a game whose proposals are numbered by position, \<open>get_proposal i\<close>
  is the proposal at index \<open>i - 1\<close> and has number \<open>i\<close>.  Removing proposal
  \<open>k\<close> under the lock succeeds in one step: the list is shorter by one and again
  numbered by position, the proposal formerly numbered \<open>j > k\<close> is now number
  \<open>j - 1\<close> with its other fields unchanged, the proposals below \<open>k\<close> are
  untouched, and the store holds the new list.
\<close>

theorem remove_proposal_renumbers:
  fixes g caller k
  defines "ps \<equiv> proposals g"
      and "g' \<equiv> snd (remove_proposal g caller k)"
  assumes "numbered ps"
      and "assert_locked g caller = Inr ()"
      and "1 \<le> k" and "k \<le> int (length ps)"
  shows "(\<forall>i. 1 \<le> i \<and> i \<le> int (length ps) \<longrightarrow>
            get_proposal g i = Some (ps ! nat (i - 1)) \<and> n (ps ! nat (i - 1)) = i)
     \<and> fst (remove_proposal g caller k) = Inr ()
     \<and> length (proposals g') = length ps - 1
     \<and> numbered (proposals g')
     \<and> (\<forall>j. k < j \<and> j \<le> int (length ps) \<longrightarrow>
            get_proposal g' (j - 1) = Some ((ps ! nat (j - 1))\<lparr>n := j - 1\<rparr>))
     \<and> (\<forall>j. 1 \<le> j \<and> j < k \<longrightarrow> get_proposal g' j = get_proposal g j)
     \<and> snap_proposals (db g') = map Proposal_export (proposals g')"
proof -
  have res: "remove_proposal g caller k =
      (Inr (), g\<lparr>proposals := proposals_without k ps,
                 db := Game_export (g\<lparr>proposals := proposals_without k ps\<rparr>)\<rparr>)"
    using assms(4-6)
    by (simp add: remove_proposal_def Game_save_def assert_locked_def ps_def
        split: option.splits if_splits)
  then have pg': "proposals g' = proposals_without k ps" by (simp add: g'_def)
  have len: "length (proposals g') = length ps - 1"
    using assms(5,6) by (simp add: pg' without_length)
  have c1: "\<forall>i. 1 \<le> i \<and> i \<le> int (length ps) \<longrightarrow>
            get_proposal g i = Some (ps ! nat (i - 1)) \<and> n (ps ! nat (i - 1)) = i"
  proof (intro allI impI)
    fix i assume i: "1 \<le> i \<and> i \<le> int (length ps)"
    then have "nat (i - 1) < length ps" by linarith
    with assms(3) have "n (ps ! nat (i - 1)) = int (nat (i - 1)) + 1" by (rule numbered_nth)
    with i show "get_proposal g i = Some (ps ! nat (i - 1)) \<and> n (ps ! nat (i - 1)) = i"
      by (simp add: get_proposal_def has_proposal_def ps_def)
  qed
  have high: "get_proposal g' (j - 1) = Some ((ps ! nat (j - 1))\<lparr>n := j - 1\<rparr>)"
    if j: "k < j \<and> j \<le> int (length ps)" for j
  proof -
    from j assms(5) have h: "has_proposal g' (j - 1)"
      unfolding has_proposal_def len by linarith
    from j assms(5) have i1: "nat (k - 1) \<le> nat (j - 1 - 1)" and i2: "Suc (nat (j - 1 - 1)) < length ps"
      by linarith+
    from j assms(5) have e: "Suc (nat (j - 1 - 1)) = nat (j - 1)" "int (nat (j - 1 - 1)) + 1 = j - 1"
      by linarith+
    from without_nth_high [OF assms(3,5,6) i1 i2] e
    have "proposals_without k ps ! nat (j - 1 - 1) = (ps ! nat (j - 1))\<lparr>n := j - 1\<rparr>" by simp
    with h show ?thesis by (simp add: get_proposal_def pg')
  qed
  have low: "get_proposal g' j = get_proposal g j" if j: "1 \<le> j \<and> j < k" for j
  proof -
    from j assms(6) have h: "has_proposal g' j" "has_proposal g j"
      unfolding has_proposal_def len ps_def [symmetric] by linarith+
    from j have "nat (j - 1) < nat (k - 1)" by linarith
    from without_nth_low [OF assms(3,5,6) this] h show ?thesis
      by (simp add: get_proposal_def pg' ps_def)
  qed
  have num: "numbered (proposals g')"
    unfolding numbered_iff len
  proof (intro allI impI)
    fix i assume i: "i < length ps - 1"
    show "n (proposals g' ! i) = int i + 1"
    proof (cases "i < nat (k - 1)")
      case True
      from i have "i < length ps" by linarith
      with assms(3) have "n (ps ! i) = int i + 1" by (rule numbered_nth)
      with without_nth_low [OF assms(3,5,6) True] show ?thesis by (simp add: pg')
    next
      case False
      then have "nat (k - 1) \<le> i" by simp
      moreover from i have "Suc i < length ps" by linarith
      ultimately show ?thesis
        using without_nth_high [OF assms(3,5,6)] by (simp add: pg')
    qed
  qed
  have saved: "snap_proposals (db g') = map Proposal_export (proposals g')"
    by (simp add: g'_def res Game_export_def)
  from res have "fst (remove_proposal g caller k) = Inr ()" by simp
  with c1 len num high low saved show ?thesis by blast
qed

theorem remove_proposal_renumbers_witness:
  "numbered (proposals held_game)
   \<and> assert_locked held_game 7 = Inr ()
   \<and> length (proposals held_game) = 3
   \<and> fst (remove_proposal held_game 7 2) = Inr ()
   \<and> length (proposals (snd (remove_proposal held_game 7 2))) = 2
   \<and> numbered (proposals (snd (remove_proposal held_game 7 2)))
   \<and> get_proposal (snd (remove_proposal held_game 7 2)) 2 =
       Some \<lparr>n = 2, author = 3, timestamp = 300, status = Voting, message_id = Some 53,
             votes = [(''against'', [(4, 2)])]\<rparr>
   \<and> get_proposal (snd (remove_proposal held_game 7 2)) 1 = get_proposal held_game 1"
proof -
  have ps: "proposals held_game =
      [\<lparr>n = 1, author = 3, timestamp = 100, status = Passed, message_id = Some 51, votes = []\<rparr>,
       \<lparr>n = 2, author = 4, timestamp = 200, status = Voting, message_id = Some 52, votes = [(''for'', [(3, 1)])]\<rparr>,
       \<lparr>n = 3, author = 3, timestamp = 300, status = Voting, message_id = Some 53, votes = [(''against'', [(4, 2)])]\<rparr>]"
    by (simp add: held_game_def example_game_def example_snapshot_def)
  have num: "numbered (proposals held_game)"
    unfolding ps numbered_def by (simp add: upt_rec)
  have lk: "assert_locked held_game 7 = Inr ()"
    by (simp add: assert_locked_def held_game_def)
  have k1: "(1::int) \<le> 2" and k2: "2 \<le> int (length (proposals held_game))"
    by (simp_all add: ps)
  note t = remove_proposal_renumbers [OF num lk k1 k2]
  have j3: "(2::int) < 3 \<and> 3 \<le> int (length (proposals held_game))" by (simp add: ps)
  have j1: "(1::int) \<le> 1 \<and> (1::int) < 2" by simp
  from t j3 have "get_proposal (snd (remove_proposal held_game 7 2)) (3 - 1)
      = Some ((proposals held_game ! nat (3 - 1))\<lparr>n := 3 - 1\<rparr>)" by blast
  then have a: "get_proposal (snd (remove_proposal held_game 7 2)) 2 =
       Some \<lparr>n = 2, author = 3, timestamp = 300, status = Voting, message_id = Some 53,
             votes = [(''against'', [(4, 2)])]\<rparr>"
    by (simp add: ps)
  from t j1 have b: "get_proposal (snd (remove_proposal held_game 7 2)) 1 = get_proposal held_game 1"
    by blast
  from t have c: "fst (remove_proposal held_game 7 2) = Inr ()"
    and d: "length (proposals (snd (remove_proposal held_game 7 2))) = length (proposals held_game) - 1"
    and e: "numbered (proposals (snd (remove_proposal held_game 7 2)))"
    by blast+
  from d have d': "length (proposals (snd (remove_proposal held_game 7 2))) = 2" by (simp add: ps)
  have l3: "length (proposals held_game) = 3" by (simp add: ps)
  from num lk l3 c d' e a b show ?thesis by blast
qed

section \<open>Properties of the rule loader and of the export\<close>

lemma Rule_init_id: "Rule_init d = d"
  by (simp add: Rule_init_def)

lemma Rule_export_id: "Rule_export r = r"
  by (simp add: Rule_export_def)

lemma update_fresh: "k \<notin> fst ` set al \<Longrightarrow> AList.update k v al = al @ [(k, v)]"
  by (induction al) auto

text \<open>What one call of the loader does, unfolded once.\<close>

lemma load_rule_Suc:
  "load_rule (Suc depth) D t (tab, w) =
     (case map_of D t of
        None \<Rightarrow> Some (Inr (), tab, w @ [NoSuchRule t])
      | Some d \<Rightarrow>
          if t \<in> fst ` set tab then Some (Inr (), tab, w @ [Repetition t])
          else if tag d \<noteq> ''root'' \<and> Rule_parent tab d = None
            then Some (Inl AttributeError, tab, w @ [NoParent t])
          else if tag d \<noteq> ''root'' \<and> tag d \<notin> set (children (the (Rule_parent tab d)))
            then Some (Inr (), tab, w @ [NotChildOfParent t (tag (the (Rule_parent tab d)))])
          else load_children depth D (children d) (tab @ [(t, d)], w))"
  by (auto simp: Rule_init_id Let_def update_fresh split: option.splits)

lemma grows_children:
  assumes P: "\<And>t st. grows st (load_rule depth D t st)"
  shows "grows st (load_children depth D cs st)"
proof (induction cs arbitrary: st)
  case Nil
  then show ?case by (cases st) (simp add: grows_def)
next
  case (Cons c cs)
  show ?case
  proof (cases "load_rule depth D c st")
    case None
    then show ?thesis by (simp add: grows_def)
  next
    case (Some a)
    obtain r tab1 w1 where a: "a = (r, tab1, w1)" by (cases a) auto
    from P [of st c] Some a obtain m1 where m1: "tab1 = fst st @ m1" by (auto simp: grows_def)
    show ?thesis
    proof (cases r)
      case (Inl e)
      with Some a m1 show ?thesis by (simp add: grows_def)
    next
      case (Inr u)
      from Cons.IH [of "(tab1, w1)"] m1 Some a Inr show ?thesis
        by (auto simp: grows_def split: option.splits)
    qed
  qed
qed

lemma grows_rule: "grows st (load_rule depth D t st)"
proof (induction depth arbitrary: t st)
  case 0
  then show ?case by (simp add: grows_def)
next
  case (Suc depth)
  obtain tab w where st: "st = (tab, w)" by (cases st)
  have ch: "grows st' (load_children depth D cs st')" for cs st'
    by (rule grows_children) (rule Suc.IH)
  show ?case
    unfolding st load_rule_Suc
    using ch [of "(tab @ [(t, the (map_of D t))], w)" "children (the (map_of D t))"]
    by (auto simp: grows_def split: option.splits)
qed

lemma grows_childrenI: "grows st (load_children depth D cs st)"
  by (rule grows_children) (rule grows_rule)

lemma load_rule_keys:
  "load_rule depth D t (tab, w) = Some (r, tab', w') \<Longrightarrow> fst ` set tab \<subseteq> fst ` set tab'"
  using grows_rule [of "(tab, w)" depth D t] by (auto simp: grows_def)

lemma load_children_keys:
  "load_children depth D cs (tab, w) = Some (r, tab', w') \<Longrightarrow> fst ` set tab \<subseteq> fst ` set tab'"
  using grows_childrenI [of "(tab, w)" depth D cs] by (auto simp: grows_def)

lemma sound_children:
  assumes P: "\<And>t st. sound D st (load_rule depth D t st)"
  shows "sound D st (load_children depth D cs st)"
proof (induction cs arbitrary: st)
  case Nil
  then show ?case by (cases st) (simp add: sound_def)
next
  case (Cons c cs)
  show ?case
  proof (cases "load_rule depth D c st")
    case None
    then show ?thesis by (simp add: sound_def)
  next
    case (Some a)
    obtain r tab1 w1 where a: "a = (r, tab1, w1)" by (cases a) auto
    from P [of st c] Some a
    have s1: "distinct (map fst (fst st)) \<longrightarrow> distinct (map fst tab1)"
      and s2: "\<forall>k v. (k, v) \<in> set tab1 \<longrightarrow> (k, v) \<in> set (fst st) \<or> map_of D k = Some v"
      by (auto simp: sound_def)
    show ?thesis
    proof (cases r)
      case (Inl e)
      with Some a s1 s2 show ?thesis by (simp add: sound_def)
    next
      case (Inr u)
      from Cons.IH [of "(tab1, w1)"] s1 s2 Some a Inr show ?thesis
        by (simp add: sound_def split: option.splits prod.splits) blast
    qed
  qed
qed

lemma sound_rule: "sound D st (load_rule depth D t st)"
proof (induction depth arbitrary: t st)
  case 0
  then show ?case by (simp add: sound_def)
next
  case (Suc depth)
  obtain tab w where st: "st = (tab, w)" by (cases st)
  have ch: "sound D st' (load_children depth D cs st')" for cs st'
    by (rule sound_children) (rule Suc.IH)
  show ?case
    unfolding st load_rule_Suc
    using ch [of "(tab @ [(t, the (map_of D t))], w)" "children (the (map_of D t))"]
    by (auto simp: sound_def split: option.splits) blast+
qed

lemma load_rule_from_empty:
  assumes "load_rule depth D t ([], []) = Some (r, tab', w')"
  shows "distinct (map fst tab')" and "map_of tab' k = Some v \<Longrightarrow> map_of D k = Some v"
proof -
  from sound_rule [of D "([], [])" depth t] assms
  have d: "distinct (map fst tab')" and e: "\<forall>k v. (k, v) \<in> set tab' \<longrightarrow> map_of D k = Some v"
    by (auto simp: sound_def)
  show "distinct (map fst tab')" by (rule d)
  assume "map_of tab' k = Some v"
  then have "(k, v) \<in> set tab'" by (rule map_of_SomeD)
  with e show "map_of D k = Some v" by blast
qed

lemma reloadsD:
  assumes "reloads D D' st res again" and "res = Some (Inr u, tab', w')"
      and "\<forall>k \<in> fst ` set tab' - fst ` set (fst st). map_of D' k = map_of D k"
  shows "\<exists>w''. again start = Some (Inr (), tab', w'')"
  using assms by (simp add: reloads_def)

lemma reloads_trivial:
  "res = None \<or> (\<exists>e st'. res = Some (Inl e, st')) \<Longrightarrow> reloads D D' st res again"
  by (auto simp: reloads_def)

lemma reloadsI:
  assumes "res = Some (Inr u, tab', w')"
      and "\<And>w0. \<forall>k \<in> fst ` set tab' - fst ` set (fst st). map_of D' k = map_of D k
              \<Longrightarrow> \<exists>w''. again w0 = Some (Inr (), tab', w'')"
  shows "reloads D D' st res again"
  using assms by (simp add: reloads_def)

lemma reloads_children:
  assumes P: "\<And>t tab w. reloads D D' (tab, w) (load_rule depth D t (tab, w))
                             (\<lambda>w0. load_rule depth D' t (tab, w0))"
  shows "reloads D D' (tab, w) (load_children depth D cs (tab, w))
           (\<lambda>w0. load_children depth D' cs (tab, w0))"
proof (induction cs arbitrary: tab w)
  case Nil
  show ?case by (rule reloadsI [of _ "()" tab w]) simp_all
next
  case (Cons c cs)
  show ?case
  proof (cases "load_rule depth D c (tab, w)")
    case None
    then show ?thesis by (intro reloads_trivial) simp
  next
    case (Some a)
    obtain r tab1 w1 where a: "a = (r, tab1, w1)" by (cases a) auto
    show ?thesis
    proof (cases r)
      case (Inl e)
      with Some a show ?thesis by (intro reloads_trivial) simp
    next
      case (Inr u)
      note first = Some [unfolded a Inr]
      show ?thesis
      proof (cases "load_children depth D cs (tab1, w1)")
        case None
        with first show ?thesis by (intro reloads_trivial) simp
      next
        case (Some b)
        obtain r2 tab2 w2 where b: "b = (r2, tab2, w2)" by (cases b) auto
        show ?thesis
        proof (cases r2)
          case (Inl e)
          with first Some b show ?thesis by (intro reloads_trivial) simp
        next
          case Inr2: (Inr u2)
          note second = Some [unfolded b Inr2]
          from load_rule_keys [OF first] have k1: "fst ` set tab \<subseteq> fst ` set tab1" .
          from load_children_keys [OF second] have k2: "fst ` set tab1 \<subseteq> fst ` set tab2" .
          have whole: "load_children depth D (c # cs) (tab, w) = Some (Inr u2, tab2, w2)"
            using first second by simp
          show ?thesis
          proof (rule reloadsI [OF whole])
            fix w0
            assume agree: "\<forall>k \<in> fst ` set tab2 - fst ` set (fst (tab, w)). map_of D' k = map_of D k"
            with k2 have "\<forall>k \<in> fst ` set tab1 - fst ` set (fst (tab, w)). map_of D' k = map_of D k"
              by auto
            from reloadsD [OF P first this] obtain w1' where
              r1: "load_rule depth D' c (tab, w0) = Some (Inr (), tab1, w1')" by blast
            from agree k1 have "\<forall>k \<in> fst ` set tab2 - fst ` set (fst (tab1, w1)). map_of D' k = map_of D k"
              by auto
            from reloadsD [OF Cons.IH second this] obtain w2' where
              "load_children depth D' cs (tab1, w1') = Some (Inr (), tab2, w2')" by blast
            with r1 show "\<exists>w''. load_children depth D' (c # cs) (tab, w0) = Some (Inr (), tab2, w'')"
              by simp
          qed
        qed
      qed
    qed
  qed
qed

lemma reloads_rule:
  assumes sub: "\<And>k v. map_of D' k = Some v \<Longrightarrow> map_of D k = Some v"
  shows "reloads D D' (tab, w) (load_rule depth D t (tab, w)) (\<lambda>w0. load_rule depth D' t (tab, w0))"
proof (induction depth arbitrary: t tab w)
  case 0
  show ?case by (intro reloads_trivial) simp
next
  case (Suc depth)
  have ch: "reloads D D' (tab, w) (load_children depth D cs (tab, w))
           (\<lambda>w0. load_children depth D' cs (tab, w0))" for cs tab w
    by (rule reloads_children) (rule Suc.IH)
  show ?case
  proof (cases "map_of D t")
    case None
    with sub [of t] have n': "map_of D' t = None" by (cases "map_of D' t") auto
    have "load_rule (Suc depth) D t (tab, w) = Some (Inr (), tab, w @ [NoSuchRule t])"
      unfolding load_rule_Suc by (simp add: None)
    moreover have "load_rule (Suc depth) D' t (tab, w0) = Some (Inr (), tab, w0 @ [NoSuchRule t])" for w0
      unfolding load_rule_Suc by (simp add: n')
    ultimately show ?thesis by (intro reloadsI) auto
  next
    case (Some d)
    have D': "map_of D' t = None \<or> map_of D' t = Some d"
      using sub [of t] Some by (cases "map_of D' t") auto
    consider (seen) "t \<in> fst ` set tab"
      | (orphan) "t \<notin> fst ` set tab" "tag d \<noteq> ''root''" "Rule_parent tab d = None"
      | (stray) "t \<notin> fst ` set tab" "tag d \<noteq> ''root''" "Rule_parent tab d \<noteq> None"
          "tag d \<notin> set (children (the (Rule_parent tab d)))"
      | (kept) "t \<notin> fst ` set tab" "\<not> (tag d \<noteq> ''root'' \<and> Rule_parent tab d = None)"
          "\<not> (tag d \<noteq> ''root'' \<and> tag d \<notin> set (children (the (Rule_parent tab d))))"
      by (cases "t \<in> fst ` set tab"; cases "tag d = ''root''"; cases "Rule_parent tab d";
          cases "tag d \<in> set (children (the (Rule_parent tab d)))") auto
    then show ?thesis
    proof cases
      case seen
      have "load_rule (Suc depth) D t (tab, w) = Some (Inr (), tab, w @ [Repetition t])"
        unfolding load_rule_Suc by (simp add: Some seen)
      moreover have "\<exists>w''. load_rule (Suc depth) D' t (tab, w0) = Some (Inr (), tab, w'')" for w0
        unfolding load_rule_Suc using D' by (elim disjE) (simp_all add: seen)
      ultimately show ?thesis by (intro reloadsI) auto
    next
      case orphan
      have "load_rule (Suc depth) D t (tab, w) = Some (Inl AttributeError, tab, w @ [NoParent t])"
        unfolding load_rule_Suc by (simp add: Some orphan)
      then show ?thesis by (intro reloads_trivial) simp
    next
      case stray
      have "load_rule (Suc depth) D t (tab, w) =
          Some (Inr (), tab, w @ [NotChildOfParent t (tag (the (Rule_parent tab d)))])"
        unfolding load_rule_Suc by (simp add: Some stray)
      moreover have "\<exists>w''. load_rule (Suc depth) D' t (tab, w0) = Some (Inr (), tab, w'')" for w0
        unfolding load_rule_Suc using D' by (elim disjE) (simp_all add: stray)
      ultimately show ?thesis by (intro reloadsI) auto
    next
      case kept
      have eq: "load_rule (Suc depth) D t (tab, w) =
          load_children depth D (children d) (tab @ [(t, d)], w)"
        unfolding load_rule_Suc by (simp add: Some kept)
      show ?thesis
      proof (cases "load_children depth D (children d) (tab @ [(t, d)], w)")
        case None
        with eq show ?thesis by (intro reloads_trivial) simp
      next
        case res: (Some b)
        obtain r2 tab2 w2 where b: "b = (r2, tab2, w2)" by (cases b) auto
        show ?thesis
        proof (cases r2)
          case (Inl e)
          with eq res b show ?thesis by (intro reloads_trivial) simp
        next
          case (Inr u)
          note run = res [unfolded b Inr]
          from load_children_keys [OF run] have k: "fst ` set (tab @ [(t, d)]) \<subseteq> fst ` set tab2" .
          then have tin: "t \<in> fst ` set tab2" by auto
          have whole: "load_rule (Suc depth) D t (tab, w) = Some (Inr u, tab2, w2)"
            using eq run by simp
          show ?thesis
          proof (rule reloadsI [OF whole])
            fix w0
            assume agree: "\<forall>k \<in> fst ` set tab2 - fst ` set (fst (tab, w)). map_of D' k = map_of D k"
            with tin kept(1) Some have d': "map_of D' t = Some d" by auto
            from agree have "\<forall>k \<in> fst ` set tab2 - fst ` set (fst (tab @ [(t, d)], w)).
                map_of D' k = map_of D k"
              by auto
            from reloadsD [OF ch run this] obtain w2' where
              "load_children depth D' (children d) (tab @ [(t, d)], w0) = Some (Inr (), tab2, w2')"
              by blast
            moreover have "load_rule (Suc depth) D' t (tab, w0) =
                load_children depth D' (children d) (tab @ [(t, d)], w0)"
              unfolding load_rule_Suc by (simp add: d' kept)
            ultimately show "\<exists>w''. load_rule (Suc depth) D' t (tab, w0) = Some (Inr (), tab2, w'')"
              by simp
          qed
        qed
      qed
    qed
  qed
qed

lemma load_rule_again:
  assumes "load_rule depth D t ([], []) = Some (Inr (), tab', w')"
      and "\<And>k. map_of D' k = map_of tab' k"
  shows "\<exists>w''. load_rule depth D' t ([], []) = Some (Inr (), tab', w'')"
proof -
  have sub: "map_of D' k = Some v \<Longrightarrow> map_of D k = Some v" for k v
    using load_rule_from_empty(2) [OF assms(1)] assms(2) by simp
  have agree: "\<forall>k \<in> fst ` set tab' - fst ` set (fst (([], []) :: rule_state)). map_of D' k = map_of D k"
  proof
    fix k assume "k \<in> fst ` set tab' - fst ` set (fst (([], []) :: rule_state))"
    then obtain v where v: "map_of tab' k = Some v"
      by (metis DiffD1 map_of_eq_None_iff not_Some_eq)
    from load_rule_from_empty(2) [OF assms(1) v] v assms(2) [of k]
    show "map_of D' k = map_of D k" by simp
  qed
  have "reloads D D' ([], []) (load_rule depth D t ([], []))
          (\<lambda>w0. load_rule depth D' t ([], w0))"
    by (rule reloads_rule) (rule sub)
  from reloadsD [where start = "[]", OF this assms(1) agree]
  show ?thesis .
qed

text \<open>
  The loader returns whenever the recursion bound exceeds the number of entries of the
  document that are not yet in the table; so does the constructor of the game.
\<close>

lemma pending_less:
  assumes "map_of D t = Some d" "t \<notin> fst ` set tab"
  shows "card (fst ` set D - fst ` set (tab @ [(t, d)])) < card (fst ` set D - fst ` set tab)"
proof -
  from assms(1) have "(t, d) \<in> set D" by (rule map_of_SomeD)
  then have "t \<in> fst ` set D" by force
  with assms(2) have a: "t \<in> fst ` set D - fst ` set tab" by simp
  have b: "fst ` set D - fst ` set (tab @ [(t, d)]) = (fst ` set D - fst ` set tab) - {t}"
    by auto
  have c: "finite (fst ` set D - fst ` set tab)" by simp
  show ?thesis unfolding b using a c by (rule card_Diff1_less [rotated])
qed

lemma pending_mono:
  "fst ` set tab \<subseteq> fst ` set tab' \<Longrightarrow>
   card (fst ` set D - fst ` set tab') \<le> card (fst ` set D - fst ` set tab)"
  by (intro card_mono) auto

lemma children_return:
  assumes P: "\<And>t tab w. card (fst ` set D - fst ` set tab) < depth \<Longrightarrow>
                 load_rule depth D t (tab, w) \<noteq> None"
  shows "card (fst ` set D - fst ` set tab) < depth \<Longrightarrow> load_children depth D cs (tab, w) \<noteq> None"
proof (induction cs arbitrary: tab w)
  case Nil
  then show ?case by simp
next
  case (Cons c cs)
  from P [OF Cons.prems] obtain x where x: "load_rule depth D c (tab, w) = Some x" by blast
  obtain r tab1 w1 where "x = (r, tab1, w1)" by (cases x)
  with x have first: "load_rule depth D c (tab, w) = Some (r, tab1, w1)" by simp
  from pending_mono [OF load_rule_keys [OF first], of D] Cons.prems
  have "card (fst ` set D - fst ` set tab1) < depth" by linarith
  from Cons.IH [OF this, of w1] first show ?case by (cases r) simp_all
qed

lemma load_rule_returns:
  "card (fst ` set D - fst ` set tab) < depth \<Longrightarrow> load_rule depth D t (tab, w) \<noteq> None"
proof (induction depth arbitrary: t tab w)
  case 0
  then show ?case by simp
next
  case (Suc depth)
  show ?case
  proof (cases "map_of D t")
    case None
    then show ?thesis unfolding load_rule_Suc by simp
  next
    case (Some d)
    show ?thesis
    proof (cases "t \<in> fst ` set tab")
      case True
      with Some show ?thesis unfolding load_rule_Suc by simp
    next
      case False
      from pending_less [OF Some False] Suc.prems
      have less: "card (fst ` set D - fst ` set (tab @ [(t, d)])) < depth" by linarith
      have "load_children depth D (children d) (tab @ [(t, d)], w) \<noteq> None"
        using Suc.IH less by (rule children_return)
      with Some False show ?thesis unfolding load_rule_Suc by simp
    qed
  qed
qed

lemma Game_init_returns: "Game_init (Suc (length (snap_rules d))) guild ok d \<noteq> None"
proof (cases ok)
  case False
  then show ?thesis by (simp add: Game_init_def)
next
  case True
  let ?D = "snap_rules d"
  have "card (fst ` set ?D) \<le> card (set ?D)" by (rule card_image_le) simp
  also have "\<dots> \<le> length ?D" by (rule card_length)
  finally have "card (fst ` set ?D - fst ` set ([] :: (string \<times> Rule) list)) < Suc (length ?D)"
    by simp
  then have "load_rule (Suc (length ?D)) ?D ''root'' ([], []) \<noteq> None"
    by (rule load_rule_returns)
  then obtain x where x: "load_rule (Suc (length ?D)) ?D ''root'' ([], []) = Some x" by blast
  obtain r tab ws where "x = (r, tab, ws)" by (cases x)
  with x have "load_rule (Suc (length ?D)) ?D ''root'' ([], []) = Some (r, tab, ws)" by simp
  with True show ?thesis
    unfolding Game_init_def by (cases r) (simp_all del: load_rule.simps)
qed

lemma map_of_sort_dict: "map_of (sort_dict d) k = map_of d k"
proof -
  have "distinct (map fst (dict_items d))" by (simp add: keys_dict_items)
  moreover have "set (sort_key fst (dict_items d)) = set (dict_items d)" by simp
  moreover have "distinct (map fst (sort_key fst (dict_items d)))"
    by (metis calculation(1) distinct_map distinct_sort set_sort)
  ultimately have "map_of (sort_key fst (dict_items d)) = map_of (dict_items d)"
    by (metis map_of_inject_set)
  then show ?thesis by (simp add: sort_dict_def map_of_dict_items)
qed

lemma distinct_sort_dict: "distinct (map fst (sort_dict d))"
  by (metis distinct_map distinct_remdups distinct_sort keys_dict_items set_sort sort_dict_def)

lemma sorted_sort_dict: "sorted (map fst (sort_dict d))"
  by (simp add: sort_dict_def)

lemma keys_sort_dict: "fst ` set (sort_dict d) = fst ` set d"
proof -
  have "fst ` set (dict_items d) = set (map fst (dict_items d))" by simp
  also have "\<dots> = fst ` set d" by (simp add: keys_dict_items)
  finally show ?thesis by (simp add: sort_dict_def)
qed

lemma dict_items_distinct: "distinct (map fst d) \<Longrightarrow> dict_items d = d"
proof -
  assume d: "distinct (map fst d)"
  have "map (\<lambda>k. (k, the (map_of d k))) (map fst d) = d"
  proof (rule nth_equalityI)
    show "length (map (\<lambda>k. (k, the (map_of d k))) (map fst d)) = length d" by simp
    fix i assume "i < length (map (\<lambda>k. (k, the (map_of d k))) (map fst d))"
    then have i: "i < length d" by simp
    then have "(fst (d ! i), snd (d ! i)) \<in> set d" by simp
    with d have "map_of d (fst (d ! i)) = Some (snd (d ! i))" by (rule map_of_is_SomeI)
    with i show "map (\<lambda>k. (k, the (map_of d k))) (map fst d) ! i = d ! i" by simp
  qed
  then show ?thesis unfolding dict_items_def distinct_remdups_id [OF d] .
qed

lemma map_of_map_values:
  "map_of (map (\<lambda>(k, v). (k, f v)) d) k = map_option f (map_of d k)"
  by (induction d) auto

lemma keys_map_values: "map fst (map (\<lambda>(k, v). (k, f v)) d) = map fst d"
  by (induction d) auto

lemma Quantity_round_trip:
  "Quantity_init (Quantity_export q) =
     q\<lparr>aliases := sort (aliases q), players := sorted_items (players q)\<rparr>"
  by (simp add: Quantity_init_def Quantity_export_def PlayerDict_export_def)

lemma Proposal_round_trip: "Proposal_init (Proposal_export p) = p"
  by (simp add: Proposal_init_def Proposal_export_def)

lemma sorted_dict_unique:
  assumes "sorted (map fst xs)" "distinct (map fst xs)"
      and "sorted (map fst ys)" "distinct (map fst ys)"
      and "map_of xs = map_of ys"
  shows "xs = ys"
proof -
  have "set (map fst xs) = dom (map_of xs)" by (simp add: dom_map_of_conv_image_fst)
  also have "\<dots> = set (map fst ys)" by (simp add: assms(5) dom_map_of_conv_image_fst)
  finally have keys: "map fst xs = map fst ys"
    using assms(1-4) by (intro sorted_distinct_set_unique)
  then have len: "length xs = length ys" by (metis length_map)
  show ?thesis
  proof (rule nth_equalityI [OF len])
    fix i assume i: "i < length xs"
    with len have j: "i < length ys" by simp
    from i have "(fst (xs ! i), snd (xs ! i)) \<in> set xs" by simp
    with assms(2) have a: "map_of xs (fst (xs ! i)) = Some (snd (xs ! i))" by (rule map_of_is_SomeI)
    from j have "(fst (ys ! i), snd (ys ! i)) \<in> set ys" by simp
    with assms(4) have b: "map_of ys (fst (ys ! i)) = Some (snd (ys ! i))" by (rule map_of_is_SomeI)
    from keys i j have "fst (xs ! i) = fst (ys ! i)" by (metis nth_map)
    with a b assms(5) have "snd (xs ! i) = snd (ys ! i)" by simp
    with \<open>fst (xs ! i) = fst (ys ! i)\<close> show "xs ! i = ys ! i" by (simp add: prod_eq_iff)
  qed
qed

lemma sort_dict_cong:
  assumes "map_of d1 = map_of d2"
  shows "sort_dict d1 = sort_dict d2"
proof (rule sorted_dict_unique)
  show "map_of (sort_dict d1) = map_of (sort_dict d2)"
    by (rule ext) (simp add: map_of_sort_dict assms)
qed (rule sorted_sort_dict distinct_sort_dict)+

text \<open>
  Claim C1.  For a game whose rule table was built by the loader, the export has its
  quantities and rules sorted by key and its proposals in list order, and constructing a
  game from it succeeds with the same proposals (order and fields), the same rule table,
  and the same quantities: the same keys, and under each key the same name, default and
  per-player values, with the aliases as the sorted list of the same aliases.
\<close>

theorem export_reload_round_trip:
  assumes "load_rule depth D ''root'' ([], []) = Some (Inr (), rules g, warns)"
  shows "sorted (map fst (snap_quantities (Game_export g)))
     \<and> sorted (map fst (snap_rules (Game_export g)))
     \<and> snap_proposals (Game_export g) = map Proposal_export (proposals g)
     \<and> (\<exists>g' warns'.
          Game_init depth guild True (Game_export g) = Some (Inr g', warns')
          \<and> proposals g' = proposals g
          \<and> rules g' = rules g
          \<and> fst ` set (game_quantities g') = fst ` set (game_quantities g)
          \<and> (\<forall>k q. map_of (game_quantities g) k = Some q \<longrightarrow>
                (\<exists>q'. map_of (game_quantities g') k = Some q'
                   \<and> name q' = name q
                   \<and> default_value q' = default_value q
                   \<and> aliases q' = sort (aliases q)
                   \<and> (\<forall>p. map_of (players q') p = map_of (players q) p))))"
proof -
  let ?X = "Game_export g"
  let ?Q = "map (\<lambda>(k, q). (k, Quantity_init q)) (dict_items (snap_quantities ?X))"
  have sq: "sorted (map fst (snap_quantities ?X))"
    by (simp add: Game_export_def sorted_sort_dict)
  have sr: "sorted (map fst (snap_rules ?X))"
    by (simp add: Game_export_def sorted_sort_dict)
  have sp: "snap_proposals ?X = map Proposal_export (proposals g)"
    by (simp add: Game_export_def)
  have dr: "distinct (map fst (rules g))"
    by (rule load_rule_from_empty(1) [OF assms])
  have "map_of (snap_rules ?X) k = map_of (rules g) k" for k
  proof -
    have "map_option Rule_export x = x" for x
      by (cases x) (simp_all add: Rule_export_id)
    then show ?thesis
      by (simp add: Game_export_def map_of_sort_dict map_of_map_values map_of_dict_items)
  qed
  from load_rule_again [OF assms this] obtain w'' where
    again: "load_rule depth (snap_rules ?X) ''root'' ([], []) = Some (Inr (), rules g, w'')" by blast
  define g' where "g' =
     \<lparr>lock = False, owned_thread_id = None, db = ?X, flags = snap_flags ?X,
      proposals = map Proposal_init (snap_proposals ?X),
      game_quantities = ?Q,
      rules = rules g,
      player_activity = snap_player_activity ?X,
      proposals_channel = get_channel guild (fst (snap_channels ?X)),
      rules_channel = get_channel guild (snd (snap_channels ?X))\<rparr>"
  have init: "Game_init depth guild True ?X = Some (Inr g', w'')"
    by (simp add: Game_init_def again g'_def)
  have props: "proposals g' = proposals g"
    by (simp add: g'_def sp Proposal_round_trip comp_def)
  have rls: "rules g' = rules g" by (simp add: g'_def)
  have snapq: "snap_quantities ?X =
      sort_dict (map (\<lambda>(k, q). (k, Quantity_export q)) (dict_items (game_quantities g)))"
    by (simp add: Game_export_def)
  have di: "dict_items (snap_quantities ?X) = snap_quantities ?X"
    unfolding snapq by (rule dict_items_distinct) (rule distinct_sort_dict)
  have gq: "game_quantities g' = map (\<lambda>(k, q). (k, Quantity_init q)) (snap_quantities ?X)"
    by (simp add: g'_def di)
  have look: "map_of (game_quantities g') k =
      map_option (\<lambda>q. Quantity_init (Quantity_export q)) (map_of (game_quantities g) k)" for k
    unfolding gq snapq
    by (simp add: map_of_map_values map_of_sort_dict map_of_dict_items option.map_comp comp_def)
  have keys: "fst ` set (game_quantities g') = fst ` set (game_quantities g)"
  proof -
    have im: "fst ` set (map (\<lambda>(k, v). (k, f v)) d) = fst ` set d"
      for f :: "Quantity \<Rightarrow> Quantity" and d :: "(string \<times> Quantity) list"
      by (induction d) auto
    have di': "fst ` set (dict_items d) = fst ` set d" for d :: "(string \<times> Quantity) list"
      using keys_dict_items [of d] by (metis set_map set_remdups)
    have "fst ` set (game_quantities g') = fst ` set (snap_quantities ?X)"
      unfolding gq by (rule im)
    also have "\<dots> = fst ` set (map (\<lambda>(k, q). (k, Quantity_export q)) (dict_items (game_quantities g)))"
      unfolding snapq by (rule keys_sort_dict)
    also have "\<dots> = fst ` set (dict_items (game_quantities g))" by (rule im)
    also have "\<dots> = fst ` set (game_quantities g)" by (rule di')
    finally show ?thesis .
  qed
  have each: "\<exists>q'. map_of (game_quantities g') k = Some q'
                   \<and> name q' = name q
                   \<and> default_value q' = default_value q
                   \<and> aliases q' = sort (aliases q)
                   \<and> (\<forall>p. map_of (players q') p = map_of (players q) p)"
    if "map_of (game_quantities g) k = Some q" for k q
    using that by (simp add: look Quantity_round_trip map_of_sorted_items)
  from sq sr sp init props rls keys each show ?thesis by blast
qed

lemma tree_loads: "load_rule 2 tree_rules ''root'' ([], []) = Some (Inr (), rules tree_game, [])"
  by (simp add: numeral_2_eq_2 tree_rules_def tree_game_def Rule_init_def Rule_parent_def)

lemma tree_snapshot_keys:
  "map fst (snap_quantities (Game_export tree_game)) = [''gold'', ''points'']"
  by (simp add: Game_export_def tree_game_def sort_dict_def dict_items_def)

theorem export_reload_round_trip_witness:
  "load_rule 2 tree_rules ''root'' ([], []) = Some (Inr (), rules tree_game, [])
   \<and> map fst (snap_quantities (Game_export tree_game)) = [''gold'', ''points'']
   \<and> sorted (map fst (snap_rules (Game_export tree_game)))
   \<and> (\<exists>g' warns'.
         Game_init 2 [10] True (Game_export tree_game) = Some (Inr g', warns')
         \<and> proposals g' = proposals tree_game
         \<and> rules g' = tree_rules
         \<and> (\<exists>q'. map_of (game_quantities g') ''points'' = Some q'
               \<and> name q' = ''points''
               \<and> default_value q' = PyInt 0
               \<and> aliases q' = [''p'', ''pts'']
               \<and> map_of (players q') 4 = Some (PyInt 2)))"
proof -
  let ?q = "\<lparr>name = ''points'', aliases = [''pts'', ''p''], players = [(4, PyInt 2), (3, PyInt 5)],
             default_value = PyInt 0\<rparr>"
  have q: "map_of (game_quantities tree_game) ''points'' = Some ?q"
    by (simp add: tree_game_def)
  have srt: "sort [''pts'', ''p''] = [''p'', ''pts'']" by simp
  have r: "rules tree_game = tree_rules" by (simp add: tree_game_def)
  from export_reload_round_trip [OF tree_loads, of "[10]"] obtain g' warns' where
    i: "Game_init 2 [10] True (Game_export tree_game) = Some (Inr g', warns')"
    and p: "proposals g' = proposals tree_game"
    and rl: "rules g' = rules tree_game"
    and e: "\<forall>k q. map_of (game_quantities tree_game) k = Some q \<longrightarrow>
                (\<exists>q'. map_of (game_quantities g') k = Some q'
                   \<and> name q' = name q
                   \<and> default_value q' = default_value q
                   \<and> aliases q' = sort (aliases q)
                   \<and> (\<forall>p. map_of (players q') p = map_of (players q) p))"
    and s: "sorted (map fst (snap_rules (Game_export tree_game)))"
    by blast
  from e q obtain q' where
    "map_of (game_quantities g') ''points'' = Some q'" "name q' = name ?q"
    "default_value q' = default_value ?q" "aliases q' = sort (aliases ?q)"
    "\<forall>p. map_of (players q') p = map_of (players ?q) p"
    by blast
  then have "map_of (game_quantities g') ''points'' = Some q'
               \<and> name q' = ''points''
               \<and> default_value q' = PyInt 0
               \<and> aliases q' = [''p'', ''pts'']
               \<and> map_of (players q') 4 = Some (PyInt 2)"
    using srt by simp
  with i p rl r tree_loads tree_snapshot_keys s show ?thesis by (metis (no_types, lifting))
qed

section \<open>Properties of refresh and repost\<close>

lemma loop_prefix:
  "refreshed_all io g pre w = Some w1 \<Longrightarrow>
   refresh_loop io depth caller (pre @ rest) g w = refresh_loop io depth caller rest g w1"
proof (induction pre arbitrary: w)
  case Nil
  then show ?case by simp
next
  case (Cons i pre)
  then show ?case
    by (cases "refresh_message io (proposals g ! nat (i - 1)) w")
       (auto split: sum.splits)
qed

lemma check_proposal_all:
  "check_proposal g ns = Inr () \<longleftrightarrow> (\<forall>i \<in> set ns. 1 \<le> i \<and> i \<le> int (length (proposals g)))"
  by (induction ns) auto

lemma set_message_id_fields:
  "length (proposals (set_message_id g i m)) = length (proposals g)"
  "owned_thread_id (set_message_id g i m) = owned_thread_id g"
  by (simp_all add: set_message_id_def)

lemma set_message_id_nth:
  "j < length (proposals g) \<Longrightarrow>
   proposals (set_message_id g i m) ! j =
     (if j = nat (i - 1) then (proposals g ! j)\<lparr>message_id := Some m\<rparr> else proposals g ! j)"
  by (simp add: set_message_id_def nth_list_update)

lemma send_placeholders_effect:
  assumes "send_placeholders io is g w = (Inr (), g1, w')"
      and "distinct is"
      and "\<forall>i \<in> set is. 1 \<le> i \<and> i \<le> int (length (proposals g))"
  shows "length (proposals g1) = length (proposals g)
     \<and> owned_thread_id g1 = owned_thread_id g
     \<and> length (placeholder_ids io is w) = length is
     \<and> (\<forall>k < length is. proposals g1 ! nat (is ! k - 1) =
           (proposals g ! nat (is ! k - 1))\<lparr>message_id := Some (placeholder_ids io is w ! k)\<rparr>)
     \<and> (\<forall>j < length (proposals g). (\<forall>i \<in> set is. j \<noteq> nat (i - 1)) \<longrightarrow>
           proposals g1 ! j = proposals g ! j)"
  using assms
proof (induction "is" arbitrary: g w)
  case Nil
  then show ?case by simp
next
  case (Cons i rest)
  obtain r w1 where s: "send io w i = (r, w1)" by (cases "send io w i")
  with Cons.prems(1) obtain m where r: "r = Inr m" by (cases r) auto
  let ?g = "set_message_id g i m"
  from Cons.prems(1) s r have run: "send_placeholders io rest ?g w1 = (Inr (), g1, w')" by simp
  from Cons.prems(2) have d: "distinct rest" and ni: "i \<notin> set rest" by auto
  from Cons.prems(3) have v: "\<forall>i \<in> set rest. 1 \<le> i \<and> i \<le> int (length (proposals ?g))"
    and vi: "1 \<le> i" "i \<le> int (length (proposals g))"
    by (auto simp: set_message_id_fields)
  note IH = Cons.IH [OF run d v]
  have ids: "placeholder_ids io (i # rest) w = m # placeholder_ids io rest w1"
    using s r by simp
  have apart: "nat (i - 1) \<noteq> nat (i' - 1)" if "i' \<in> set rest" for i'
  proof -
    from that ni have "i' \<noteq> i" by auto
    moreover from that v have "1 \<le> i'" by auto
    ultimately show ?thesis using vi by linarith
  qed
  have idx: "nat (i - 1) < length (proposals g)" using vi by linarith
  have c1: "length (proposals g1) = length (proposals g)"
    using IH by (simp add: set_message_id_fields)
  have c2: "owned_thread_id g1 = owned_thread_id g"
    using IH by (simp add: set_message_id_fields)
  have c3: "length (placeholder_ids io (i # rest) w) = length (i # rest)"
    using IH ids by simp
  have c4: "proposals g1 ! nat ((i # rest) ! k - 1) =
      (proposals g ! nat ((i # rest) ! k - 1))\<lparr>message_id := Some (placeholder_ids io (i # rest) w ! k)\<rparr>"
    if k: "k < length (i # rest)" for k
  proof (cases k)
    case 0
    from IH idx apart have "proposals g1 ! nat (i - 1) = proposals ?g ! nat (i - 1)"
      by (simp add: set_message_id_fields)
    with idx 0 ids show ?thesis by (simp add: set_message_id_nth)
  next
    case (Suc k')
    with k have k': "k' < length rest" by simp
    then have mem: "rest ! k' \<in> set rest" by simp
    from v mem have "rest ! k' \<le> int (length (proposals g))" "1 \<le> rest ! k'"
      by (auto simp: set_message_id_fields)
    then have "nat (rest ! k' - 1) < length (proposals g)" by linarith
    moreover from apart [OF mem] have "nat (rest ! k' - 1) \<noteq> nat (i - 1)" by simp
    ultimately have "proposals ?g ! nat (rest ! k' - 1) = proposals g ! nat (rest ! k' - 1)"
      by (simp add: set_message_id_nth)
    with IH k' Suc ids show ?thesis by simp
  qed
  have c5: "proposals g1 ! j = proposals g ! j"
    if j: "j < length (proposals g)" and out: "\<forall>i' \<in> set (i # rest). j \<noteq> nat (i' - 1)" for j
  proof -
    from out have "\<forall>i' \<in> set rest. j \<noteq> nat (i' - 1)" and "j \<noteq> nat (i - 1)" by auto
    with IH j have "proposals g1 ! j = proposals ?g ! j"
      by (simp add: set_message_id_fields)
    with j \<open>j \<noteq> nat (i - 1)\<close> show ?thesis by (simp add: set_message_id_nth)
  qed
  from c1 c2 c3 c4 c5 show ?case by blast
qed

text \<open>
  What the repost does once it gets past its own fetches: for every collaborator, a
  \<open>NotFound\<close> from the body of the loop for \<open>n\<close> turns the call into
  \<open>repost_proposal(n)\<close>, and if the fetches, the deletion and the sends of that
  repost succeed, a placeholder has been sent for each number from \<open>n\<close> to the
  number of proposals and for no other.
\<close>

lemma repost_range_when_fetches_succeed:
  fixes io :: "'w Messenger" and g caller ns pre n post w w1 w2 depth
  defines "L \<equiv> int (length (proposals g))"
  assumes locked: "assert_locked g caller = Inr ()"
      and valid: "check_proposal g ns = Inr ()"
      and order: "sort (remdups ns) = pre @ n # post"
      and before: "refreshed_all io g pre w = Some w1"
      and missing: "refresh_message io (proposals g ! nat (n - 1)) w1 = (Inl NotFound, w2)"
  shows "refresh_proposal io (Suc depth) caller ns g w =
           repost_proposal io (Suc depth) caller [n] g w2
     \<and> (\<forall>found w3 w4 g1 w5.
          fetch_all io (map (\<lambda>i. proposals g ! nat (i - 1)) [n..L]) w2 = (Inr found, w3)
          \<and> (if found \<noteq> [] then delete_messages io w3 found else (Inr (), w3)) = (Inr (), w4)
          \<and> send_placeholders io [n..L] g w4 = (Inr (), g1, w5)
          \<longrightarrow>
            repost_proposal io (Suc depth) caller [n] g w2 =
              refresh_proposal io depth caller [n..L] (g1\<lparr>db := Game_export g1\<rparr>) w5
            \<and> length (proposals g1) = length (proposals g)
            \<and> length (placeholder_ids io [n..L] w4) = nat (L - n + 1)
            \<and> (\<forall>i. 1 \<le> i \<and> i < n \<longrightarrow> get_proposal g1 i = get_proposal g i)
            \<and> (\<forall>i. n \<le> i \<and> i \<le> L \<longrightarrow>
                  get_proposal g1 i =
                    Some ((proposals g ! nat (i - 1))
                            \<lparr>message_id := Some (placeholder_ids io [n..L] w4 ! nat (i - n))\<rparr>)))"
proof (intro conjI allI impI)
  have "n \<in> set (sort (remdups ns))" unfolding order by simp
  then have nin: "n \<in> set ns" by simp
  with valid have nv: "1 \<le> n" "n \<le> L"
    by (auto simp: check_proposal_all L_def)
  show first: "refresh_proposal io (Suc depth) caller ns g w =
           repost_proposal io (Suc depth) caller [n] g w2"
    using locked valid by (simp add: order loop_prefix [OF before] missing)
  fix found w3 w4 g1 w5
  assume run: "fetch_all io (map (\<lambda>i. proposals g ! nat (i - 1)) [n..L]) w2 = (Inr found, w3)
          \<and> (if found \<noteq> [] then delete_messages io w3 found else (Inr (), w3)) = (Inr (), w4)
          \<and> send_placeholders io [n..L] g w4 = (Inr (), g1, w5)"
  then have sp: "send_placeholders io [n..L] g w4 = (Inr (), g1, w5)" by simp
  have rv: "\<forall>i \<in> set [n..L]. 1 \<le> i \<and> i \<le> int (length (proposals g))"
    using nv by (auto simp: L_def)
  note eff = send_placeholders_effect [OF sp distinct_upto rv]
  from eff have len: "length (proposals g1) = length (proposals g)"
    and own: "owned_thread_id g1 = owned_thread_id g"
    and idl: "length (placeholder_ids io [n..L] w4) = length [n..L]"
    and inr: "\<forall>k < length [n..L]. proposals g1 ! nat ([n..L] ! k - 1) =
           (proposals g ! nat ([n..L] ! k - 1))\<lparr>message_id := Some (placeholder_ids io [n..L] w4 ! k)\<rparr>"
    and out: "\<forall>j < length (proposals g). (\<forall>i \<in> set [n..L]. j \<noteq> nat (i - 1)) \<longrightarrow>
           proposals g1 ! j = proposals g ! j"
    by blast+
  from own locked have lk1: "assert_locked g1 caller = Inr ()"
    by (simp add: assert_locked_def)
  then have save: "Game_save g1 caller = (Inr (), g1\<lparr>db := Game_export g1\<rparr>)"
    by (simp add: Game_save_def)
  have chk: "check_proposal g [n] = Inr ()" using nv by (simp add: L_def)
  show "repost_proposal io (Suc depth) caller [n] g w2 =
              refresh_proposal io depth caller [n..L] (g1\<lparr>db := Game_export g1\<rparr>) w5"
  proof (cases "found = []")
    case True
    with run locked chk save show ?thesis
      by (simp add: L_def [symmetric] Let_def del: refresh_proposal.simps check_proposal.simps)
  next
    case False
    with run locked chk save show ?thesis
      by (simp add: L_def [symmetric] Let_def del: refresh_proposal.simps check_proposal.simps)
  qed
  show "length (proposals g1) = length (proposals g)" by (rule len)
  show "length (placeholder_ids io [n..L] w4) = nat (L - n + 1)"
    using idl by simp
  show "get_proposal g1 i = get_proposal g i" if i: "1 \<le> i \<and> i < n" for i
  proof -
    from i nv have j: "nat (i - 1) < length (proposals g)" by (simp add: L_def) linarith
    have "\<forall>i' \<in> set [n..L]. nat (i - 1) \<noteq> nat (i' - 1)"
    proof
      fix i' assume "i' \<in> set [n..L]"
      then have "n \<le> i'" by simp
      with i show "nat (i - 1) \<noteq> nat (i' - 1)" by linarith
    qed
    with out j have "proposals g1 ! nat (i - 1) = proposals g ! nat (i - 1)" by blast
    then show ?thesis by (simp add: get_proposal_def has_proposal_def len)
  qed
  show "get_proposal g1 i =
          Some ((proposals g ! nat (i - 1))
                  \<lparr>message_id := Some (placeholder_ids io [n..L] w4 ! nat (i - n))\<rparr>)"
    if i: "n \<le> i \<and> i \<le> L" for i
  proof -
    from i have k: "nat (i - n) < length [n..L]" by simp
    from i have "n + int (nat (i - n)) \<le> L" by simp
    then have "[n..L] ! nat (i - n) = n + int (nat (i - n))" by (rule nth_upto)
    with i have e: "[n..L] ! nat (i - n) = i" by simp
    from inr k have "proposals g1 ! nat ([n..L] ! nat (i - n) - 1) =
        (proposals g ! nat ([n..L] ! nat (i - n) - 1))
          \<lparr>message_id := Some (placeholder_ids io [n..L] w4 ! nat (i - n))\<rparr>"
      by blast
    then have "proposals g1 ! nat (i - 1) =
        (proposals g ! nat (i - 1))\<lparr>message_id := Some (placeholder_ids io [n..L] w4 ! nat (i - n))\<rparr>"
      unfolding e .
    moreover from i nv have "has_proposal g1 i"
      by (simp add: has_proposal_def len L_def)
    ultimately show ?thesis by (simp add: get_proposal_def)
  qed
qed

lemma held_proposals:
  "proposals held_game =
      [\<lparr>n = 1, author = 3, timestamp = 100, status = Passed, message_id = Some 51, votes = []\<rparr>,
       \<lparr>n = 2, author = 4, timestamp = 200, status = Voting, message_id = Some 52, votes = [(''for'', [(3, 1)])]\<rparr>,
       \<lparr>n = 3, author = 3, timestamp = 300, status = Voting, message_id = Some 53, votes = [(''against'', [(4, 2)])]\<rparr>]"
  by (simp add: held_game_def example_game_def example_snapshot_def)

lemmas channel_simps =
  channel_io_def on_message_def refresh_message_def and_then_def example_channel_def

text \<open>
  The repost fetches the message of every proposal of its range, the one that was just
  found missing first, outside any handler.
\<close>

lemma fetch_all_first_not_found:
  "fetch_message io w p = (Inl NotFound, w) \<Longrightarrow> fetch_all io (p # ps) w = (Inl NotFound, w)"
  by (simp add: and_then_def)

lemma refresh_message_fetch_not_found:
  "fetch_message io w p = (Inl NotFound, w) \<Longrightarrow> refresh_message io p w = (Inl NotFound, w)"
  by (simp add: refresh_message_def and_then_def)

text \<open>
  Claim C2.  Let the caller hold the lock and all ids be valid, let \<open>i\<close> be an id of
  the call with the ids before it refreshed, and let the collaborator's fetch signal
  \<open>NotFound\<close> for the message of proposal \<open>i\<close>, as the fetch of the spec does
  for a missing message.  Then the call does turn into \<open>repost_proposal(i)\<close>, but
  the repost raises \<open>NotFound\<close> at its first fetch: the whole call raises, no
  message is deleted or sent, and the game is as it was.
\<close>

theorem refresh_not_found_aborts:
  fixes io :: "'w Messenger" and g caller ns pre i post w w1 depth
  assumes locked: "assert_locked g caller = Inr ()"
      and valid: "check_proposal g ns = Inr ()"
      and order: "sort (remdups ns) = pre @ i # post"
      and before: "refreshed_all io g pre w = Some w1"
      and missing: "fetch_message io w1 (proposals g ! nat (i - 1)) = (Inl NotFound, w1)"
  shows "refresh_proposal io (Suc depth) caller ns g w =
           repost_proposal io (Suc depth) caller [i] g w1
     \<and> repost_proposal io (Suc depth) caller [i] g w1 = Some (Inl NotFound, g, w1)"
proof
  have "i \<in> set (sort (remdups ns))" unfolding order by simp
  then have "i \<in> set ns" by simp
  with valid have iv: "1 \<le> i" "i \<le> int (length (proposals g))"
    by (auto simp: check_proposal_all)
  show "refresh_proposal io (Suc depth) caller ns g w =
           repost_proposal io (Suc depth) caller [i] g w1"
    using locked valid
    by (simp add: order loop_prefix [OF before] refresh_message_fetch_not_found [OF missing])
  from iv have range: "[i..int (length (proposals g))] = i # [i + 1..int (length (proposals g))]"
    by (simp add: upto_rec1)
  have chk: "check_proposal g [i] = Inr ()" using iv by simp
  show "repost_proposal io (Suc depth) caller [i] g w1 = Some (Inl NotFound, g, w1)"
    using locked chk
    by (simp add: range fetch_all_first_not_found [OF missing] Let_def
        del: check_proposal.simps fetch_all.simps)
qed

theorem refresh_not_found_aborts_witness:
  "assert_locked held_game 7 = Inr ()
   \<and> check_proposal held_game [3, 2, 1] = Inr ()
   \<and> sort (remdups [3, 2, 1 :: int]) = [1] @ 2 # [3]
   \<and> refreshed_all channel_io held_game [1] example_channel = Some example_channel
   \<and> fetch_message channel_io example_channel (proposals held_game ! nat (2 - 1))
       = (Inl NotFound, example_channel)
   \<and> refresh_proposal channel_io (Suc 0) 7 [3, 2, 1] held_game example_channel =
       Some (Inl NotFound, held_game, example_channel)
   \<and> map message_id (proposals held_game) = [Some 51, Some 52, Some 53]
   \<and> existing example_channel = [51, 53]"
proof -
  have lk: "assert_locked held_game 7 = Inr ()"
    by (simp add: assert_locked_def held_game_def)
  have ck: "check_proposal held_game [3, 2, 1] = Inr ()" by (simp add: held_proposals)
  have so: "sort (remdups [3, 2, 1 :: int]) = [1] @ 2 # [3]" by simp
  have be: "refreshed_all channel_io held_game [1] example_channel = Some example_channel"
    by (simp add: held_proposals channel_simps)
  have mi: "fetch_message channel_io example_channel (proposals held_game ! nat (2 - 1))
       = (Inl NotFound, example_channel)"
    by (simp add: held_proposals channel_simps)
  from refresh_not_found_aborts [OF lk ck so be mi, of 0]
  have r: "refresh_proposal channel_io (Suc 0) 7 [3, 2, 1] held_game example_channel =
       Some (Inl NotFound, held_game, example_channel)" by simp
  have ids: "map message_id (proposals held_game) = [Some 51, Some 52, Some 53]"
    by (simp add: held_proposals)
  have ex: "existing example_channel = [51, 53]" by (simp add: example_channel_def)
  from lk ck so be mi r ids ex show ?thesis by blast
qed

text \<open>
  A fetch that returns \<open>None\<close> for the missing message does not lead to a repost
  either: \<open>m.clear_reactions()\<close> on \<open>None\<close> raises \<open>AttributeError\<close>,
  which the handler for \<open>NotFound\<close> does not catch.
\<close>

lemma refresh_fetch_none_raises:
  assumes "assert_locked g caller = Inr ()"
      and "check_proposal g [i] = Inr ()"
      and "fetch_message io w (proposals g ! nat (i - 1)) = (Inr None, w1)"
  shows "refresh_proposal io depth caller [i] g w = Some (Inl AttributeError, g, w1)"
  using assms
  by (simp add: refresh_message_def and_then_def del: check_proposal.simps)

end
